theory Spec2Isabelle
  imports Complex_Main
begin

section \<open>Python primitives used by the dashboard\<close>

text \<open>
  The dashboard is one Python script, \<^verbatim>\<open>streamlit_app/main.py\<close>. Its own logic is the
  data generator \<^verbatim>\<open>generate_sample_data\<close>, the filter \<^verbatim>\<open>load_weather_data\<close> and the
  summary cards of \<^verbatim>\<open>create_dashboard\<close>. They call a handful of library primitives
  (\<^verbatim>\<open>round\<close>, \<^verbatim>\<open>random.uniform\<close>, \<^verbatim>\<open>datetime\<close> arithmetic, \<^verbatim>\<open>strftime\<close>), which are
  modelled first.

  Python floats are modelled as exact real numbers: every double is a real number, and
  the model computes with the exact values where CPython rounds each operation to the
  nearest double.
\<close>

subsection \<open>Rounding\<close>

text \<open>
  \<^verbatim>\<open>round(x)\<close> returns the nearest \<^verbatim>\<open>int\<close>, a tie going to the even neighbour.
  \<^verbatim>\<open>round(x, n)\<close> does the same at the n-th decimal and returns a float.
\<close>

definition py_round :: "real \<Rightarrow> int" where
  "py_round x =
     (let f = \<lfloor>x\<rfloor>; d = x - of_int f in
      if d < 1 / 2 then f
      else if 1 / 2 < d then f + 1
      else if even f then f else f + 1)"

definition py_round_ndigits :: "real \<Rightarrow> nat \<Rightarrow> real" where
  "py_round_ndigits x n = of_int (py_round (x * 10 ^ n)) / 10 ^ n"

subsection \<open>The random source\<close>

text \<open>
  The state of the \<^verbatim>\<open>random\<close> module is the stream of values that the successive calls
  of \<^verbatim>\<open>random.random()\<close> will return; each lies in \<open>[0, 1)\<close>. \<^verbatim>\<open>random.uniform(a, b)\<close>
  is \<^verbatim>\<open>a + (b - a) * random()\<close> and consumes one value.
\<close>

type_synonym rng = "nat \<Rightarrow> real"

definition rng_ok :: "rng \<Rightarrow> bool" where
  "rng_ok g = (\<forall>k. 0 \<le> g k \<and> g k < 1)"

definition random_uniform :: "real \<Rightarrow> real \<Rightarrow> rng \<Rightarrow> real \<times> rng" where
  "random_uniform a b g = (a + (b - a) * g 0, (\<lambda>k. g (Suc k)))"

definition const_rng :: "real \<Rightarrow> rng" where
  "const_rng u = (\<lambda>k. u)"

subsection \<open>Calendar dates\<close>

text \<open>
  Only the calendar day of a \<^verbatim>\<open>datetime\<close> matters to the script: \<^verbatim>\<open>timedelta(days=i)\<close>
  leaves the time of day alone and \<^verbatim>\<open>strftime("%Y-%m-%d")\<close> does not print it. A date is
  its year, month and day in the proleptic Gregorian calendar. Subtracting \<open>i\<close> days steps
  back \<open>i\<close> calendar days. The calendar of the model is unbounded: Python raises
  \<^verbatim>\<open>OverflowError\<close> when the result would precede 0001-01-01, which no wall clock reaches.
\<close>

record pydate =
  year :: int
  month :: nat
  day :: nat

definition is_leap :: "int \<Rightarrow> bool" where
  "is_leap y = (y mod 4 = 0 \<and> (y mod 100 \<noteq> 0 \<or> y mod 400 = 0))"

definition days_in_month :: "int \<Rightarrow> nat \<Rightarrow> nat" where
  "days_in_month y m =
     (if m = 2 then (if is_leap y then 29 else 28)
      else if m = 4 \<or> m = 6 \<or> m = 9 \<or> m = 11 then 30
      else 31)"

definition prev_day :: "pydate \<Rightarrow> pydate" where
  "prev_day d =
     (if 1 < day d then d\<lparr>day := day d - 1\<rparr>
      else if 1 < month d then
        \<lparr>year = year d, month = month d - 1, day = days_in_month (year d) (month d - 1)\<rparr>
      else \<lparr>year = year d - 1, month = 12, day = 31\<rparr>)"

fun minus_days :: "pydate \<Rightarrow> nat \<Rightarrow> pydate" where
  "minus_days d 0 = d"
| "minus_days d (Suc n) = minus_days (prev_day d) n"

text \<open>
  The day after a date, and the dates that exist in the calendar. They state what the
  dates of the generator are; the script does not compute them.
\<close>

definition calendar_ok :: "pydate \<Rightarrow> bool" where
  "calendar_ok d =
     (1 \<le> month d \<and> month d \<le> 12 \<and> 1 \<le> day d \<and> day d \<le> days_in_month (year d) (month d))"

definition next_day :: "pydate \<Rightarrow> pydate" where
  "next_day d =
     (if day d < days_in_month (year d) (month d) then d\<lparr>day := day d + 1\<rparr>
      else if month d < 12 then \<lparr>year = year d, month = month d + 1, day = 1\<rparr>
      else \<lparr>year = year d + 1, month = 1, day = 1\<rparr>)"

text \<open>
  \<^verbatim>\<open>strftime("%Y-%m-%d")\<close>: the year zero-padded to four digits, month and day to two.
\<close>

definition digit_char :: "nat \<Rightarrow> char" where
  "digit_char n = ''0123456789'' ! n"

fun digits :: "nat \<Rightarrow> string" where
  "digits n = (if n < 10 then [digit_char n] else digits (n div 10) @ [digit_char (n mod 10)])"

declare digits.simps [simp del]

definition zfill :: "nat \<Rightarrow> string \<Rightarrow> string" where
  "zfill w s = replicate (w - length s) (CHR ''0'') @ s"

definition strftime_ymd :: "pydate \<Rightarrow> string" where
  "strftime_ymd d =
     zfill 4 (digits (nat (year d))) @ ''-'' @ zfill 2 (digits (month d)) @ ''-'' @
     zfill 2 (digits (day d))"

text \<open>
  The wall clock, as the generator sees it: \<open>clock i\<close> is the day returned by the call of
  \<^verbatim>\<open>datetime.now()\<close> in iteration \<open>i\<close> of the generator's outer loop.
\<close>

type_synonym clock = "nat \<Rightarrow> pydate"

definition fixed_clock :: "pydate \<Rightarrow> clock" where
  "fixed_clock d = (\<lambda>i. d)"

section \<open>The data generator\<close>

record weather_record =
  date :: string
  region :: string
  temperature :: real
  humidity :: int
  wind_speed :: real
  air_quality_index :: int
  precipitation :: real

definition regions :: "string list" where
  "regions = [''New York'', ''London'', ''Tokyo'', ''Mumbai'', ''Sydney'', ''Paris'',
     ''Dubai'', ''Singapore'']"

text \<open>
  One dictionary of the inner loop. The five samples are drawn in the order of the
  dictionary's entries.
\<close>

definition make_record :: "string \<Rightarrow> string \<Rightarrow> rng \<Rightarrow> weather_record \<times> rng" where
  "make_record d reg g0 =
     (let (t, g1) = random_uniform 15 35 g0;
          (h, g2) = random_uniform 30 90 g1;
          (w, g3) = random_uniform 0 30 g2;
          (a, g4) = random_uniform 20 150 g3;
          (p, g5) = random_uniform 0 100 g4
      in (\<lparr>date = d, region = reg,
           temperature = py_round_ndigits t 1,
           humidity = py_round h,
           wind_speed = py_round_ndigits w 1,
           air_quality_index = py_round a,
           precipitation = py_round_ndigits p 2\<rparr>, g5))"

text \<open>The inner loop \<^verbatim>\<open>for region in regions\<close>, appending to \<^verbatim>\<open>data\<close>.\<close>

fun region_loop ::
  "string \<Rightarrow> string list \<Rightarrow> weather_record list \<times> rng \<Rightarrow> weather_record list \<times> rng" where
  "region_loop d [] (data, g) = (data, g)"
| "region_loop d (reg # regs) (data, g) =
     (let (r, g') = make_record d reg g in region_loop d regs (data @ [r], g'))"

text \<open>The outer loop \<^verbatim>\<open>for i in range(30)\<close>.\<close>

fun day_loop ::
  "clock \<Rightarrow> nat list \<Rightarrow> weather_record list \<times> rng \<Rightarrow> weather_record list \<times> rng" where
  "day_loop now [] s = s"
| "day_loop now (i # is) s =
     day_loop now is (region_loop (strftime_ymd (minus_days (now i) i)) regions s)"

definition generate_sample_data :: "clock \<Rightarrow> rng \<Rightarrow> weather_record list" where
  "generate_sample_data now g = fst (day_loop now [0..<30] ([], g))"

definition key :: "weather_record \<Rightarrow> string \<times> string" where
  "key r = (date r, region r)"

text \<open>The documented ranges of the five sampled fields.\<close>

definition in_range :: "weather_record \<Rightarrow> bool" where
  "in_range r =
     (15 \<le> temperature r \<and> temperature r \<le> 35 \<and>
      30 \<le> humidity r \<and> humidity r \<le> 90 \<and>
      0 \<le> wind_speed r \<and> wind_speed r \<le> 30 \<and>
      20 \<le> air_quality_index r \<and> air_quality_index r \<le> 150 \<and>
      0 \<le> precipitation r \<and> precipitation r \<le> 100)"

text \<open>A value with at most one decimal place, as \<^verbatim>\<open>round(x, 1)\<close> returns.\<close>

definition one_decimal :: "real \<Rightarrow> bool" where
  "one_decimal x = (of_int \<lfloor>x * 10\<rfloor> = x * 10)"

subsection \<open>The cache\<close>

text \<open>
  \<^verbatim>\<open>@st.cache_data\<close> memoises the generator, which has no arguments: the cache of the
  process is empty or holds the list returned by the first call. A call on a filled cache
  returns the stored list and reads neither the clock nor the random source.
\<close>

definition cached_generate_sample_data ::
  "weather_record list option \<Rightarrow> clock \<Rightarrow> rng \<Rightarrow> weather_record list \<times> weather_record list option"
  where
  "cached_generate_sample_data cache now g =
     (case cache of
        Some data \<Rightarrow> (data, cache)
      | None \<Rightarrow> (let data = generate_sample_data now g in (data, Some data)))"

text \<open>
  The invocations of one process, in order, each with the clock and the random source it
  would see; the list of the collections they return.
\<close>

fun invocations ::
  "weather_record list option \<Rightarrow> (clock \<times> rng) list \<Rightarrow> weather_record list list" where
  "invocations cache [] = []"
| "invocations cache ((now, g) # calls) =
     (let (data, cache') = cached_generate_sample_data cache now g
      in data # invocations cache' calls)"

section \<open>The sidebar\<close>

text \<open>
  The date picker offers the days from \<^verbatim>\<open>datetime.now() - timedelta(days=30)\<close> to
  \<^verbatim>\<open>datetime.now()\<close>, read when the sidebar is rendered.
\<close>

definition date_input_min :: "pydate \<Rightarrow> pydate" where
  "date_input_min now = minus_days now 30"

definition date_input_max :: "pydate \<Rightarrow> pydate" where
  "date_input_max now = now"

section \<open>Loading and filtering\<close>

text \<open>
  An exception that \<^verbatim>\<open>except Exception\<close> catches, with the text \<^verbatim>\<open>str(e)\<close> gives.
  The messages the script shows through \<^verbatim>\<open>st.warning\<close> and \<^verbatim>\<open>st.error\<close> are returned
  beside the data frame. A data frame is the list of its rows; \<^verbatim>\<open>pd.DataFrame()\<close> is
  the empty list.
\<close>

datatype py_exception = PyException (str: string)

datatype st_message = StWarning string | StError string

text \<open>
  The body of the \<^verbatim>\<open>try\<close> block. Its first argument is what the call
  \<^verbatim>\<open>generate_sample_data()\<close> does there: it raises, or returns the collection.
\<close>

definition load_body ::
  "py_exception + weather_record list \<Rightarrow> pydate \<Rightarrow> string \<Rightarrow>
     py_exception + st_message list \<times> weather_record list" where
  "load_body generated selected_date selected_region =
     (case generated of
        Inl e \<Rightarrow> Inl e
      | Inr data \<Rightarrow>
          (let filtered_data = filter (\<lambda>d. date d = strftime_ymd selected_date) data;
               filtered_data =
                 (if selected_region \<noteq> ''All Regions''
                  then filter (\<lambda>d. region d = selected_region) filtered_data
                  else filtered_data)
           in if filtered_data = []
              then Inr ([StWarning ''No data found for the selected filters.''], [])
              else Inr ([], filtered_data)))"

text \<open>The \<^verbatim>\<open>try\<close> with its handler.\<close>

definition load_weather_data ::
  "py_exception + weather_record list \<Rightarrow> pydate \<Rightarrow> string \<Rightarrow>
     st_message list \<times> weather_record list" where
  "load_weather_data generated selected_date selected_region =
     (case load_body generated selected_date selected_region of
        Inr result \<Rightarrow> result
      | Inl e \<Rightarrow> ([StError (''An error occurred: '' @ str e)], []))"

subsection \<open>The same function over Python's own values\<close>

text \<open>
  The model above takes the records as typed rows, which no operation of the \<^verbatim>\<open>try\<close>
  block can reject. In Python a record is a dictionary, and \<^verbatim>\<open>d['date']\<close> raises
  \<^verbatim>\<open>KeyError\<close> when the key is missing; \<^verbatim>\<open>str\<close> of that exception is the key in
  quotes. The second model keeps the dictionaries, follows each list comprehension element
  by element, so that the first exception ends it, and writes the \<^verbatim>\<open>try\<close> statement
  as \<open>try_except\<close>: its result is \<open>Inl\<close> when an exception leaves the function. On
  the dictionaries of typed rows both models agree.
\<close>

datatype py_value = PyStr string | PyFloat real | PyInt int

type_synonym py_dict = "(string \<times> py_value) list"

definition quote :: "string \<Rightarrow> string" where
  "quote k = CHR 0x27 # k @ [CHR 0x27]"

definition subscript :: "py_dict \<Rightarrow> string \<Rightarrow> py_exception + py_value" where
  "subscript d k = (case map_of d k of None \<Rightarrow> Inl (PyException (quote k)) | Some v \<Rightarrow> Inr v)"

definition field_equals :: "string \<Rightarrow> string \<Rightarrow> py_dict \<Rightarrow> py_exception + bool" where
  "field_equals k s d = (case subscript d k of Inl e \<Rightarrow> Inl e | Inr v \<Rightarrow> Inr (v = PyStr s))"

fun comprehension ::
  "(py_dict \<Rightarrow> py_exception + bool) \<Rightarrow> py_dict list \<Rightarrow> py_exception + py_dict list" where
  "comprehension c [] = Inr []"
| "comprehension c (d # ds) =
     (case c d of
        Inl e \<Rightarrow> Inl e
      | Inr b \<Rightarrow>
          (case comprehension c ds of
             Inl e \<Rightarrow> Inl e
           | Inr rest \<Rightarrow> Inr (if b then d # rest else rest)))"

definition load_body_py ::
  "py_exception + py_dict list \<Rightarrow> pydate \<Rightarrow> string \<Rightarrow>
     py_exception + st_message list \<times> py_dict list" where
  "load_body_py generated selected_date selected_region =
     (case generated of
        Inl e \<Rightarrow> Inl e
      | Inr data \<Rightarrow>
          (case comprehension (field_equals ''date'' (strftime_ymd selected_date)) data of
             Inl e \<Rightarrow> Inl e
           | Inr filtered_data \<Rightarrow>
               (case (if selected_region \<noteq> ''All Regions''
                      then comprehension (field_equals ''region'' selected_region) filtered_data
                      else Inr filtered_data) of
                  Inl e \<Rightarrow> Inl e
                | Inr filtered_data \<Rightarrow>
                    if filtered_data = []
                    then Inr ([StWarning ''No data found for the selected filters.''], [])
                    else Inr ([], filtered_data))))"

definition try_except ::
  "py_exception + 'a \<Rightarrow> (py_exception \<Rightarrow> py_exception + 'a) \<Rightarrow> py_exception + 'a" where
  "try_except body handler = (case body of Inr result \<Rightarrow> Inr result | Inl e \<Rightarrow> handler e)"

definition load_weather_data_py ::
  "py_exception + py_dict list \<Rightarrow> pydate \<Rightarrow> string \<Rightarrow>
     py_exception + st_message list \<times> py_dict list" where
  "load_weather_data_py generated selected_date selected_region =
     try_except (load_body_py generated selected_date selected_region)
       (\<lambda>e. Inr ([StError (''An error occurred: '' @ str e)], []))"

definition to_dict :: "weather_record \<Rightarrow> py_dict" where
  "to_dict r =
     [(''date'', PyStr (date r)), (''region'', PyStr (region r)),
      (''temperature'', PyFloat (temperature r)), (''humidity'', PyInt (humidity r)),
      (''wind_speed'', PyFloat (wind_speed r)),
      (''air_quality_index'', PyInt (air_quality_index r)),
      (''precipitation'', PyFloat (precipitation r))]"

section \<open>The summary cards\<close>

text \<open>
  \<^verbatim>\<open>Series.mean()\<close> is computed inside pandas in double arithmetic, in an order of
  additions that the script does not fix. The cards are therefore modelled over any
  function \<open>series_mean\<close> from columns to numbers. What the theorems assume of it is the
  contract \<open>mean_contract series_mean err\<close>: the mean of a single value is that value,
  and the computed mean of a column with at least one row differs from the arithmetic mean
  by at most \<open>err\<close>. The format \<^verbatim>\<open>:.1f\<close> prints the exact value of its argument
  rounded to one decimal, a tie going to the even digit; \<open>format_1f\<close> is the number
  printed.
\<close>

definition arithmetic_mean :: "real list \<Rightarrow> real" where
  "arithmetic_mean xs = sum_list xs / of_nat (length xs)"

definition mean_contract :: "(real list \<Rightarrow> real) \<Rightarrow> real \<Rightarrow> bool" where
  "mean_contract series_mean err =
     ((\<forall>x. series_mean [x] = x) \<and>
      (\<forall>xs. xs \<noteq> [] \<longrightarrow> \<bar>series_mean xs - arithmetic_mean xs\<bar> \<le> err))"

definition format_1f :: "real \<Rightarrow> real" where
  "format_1f x = py_round_ndigits x 1"

record metric_cards =
  avg_temperature :: real
  avg_humidity :: real
  avg_wind_speed :: real
  avg_aqi :: real

text \<open>
  \<^verbatim>\<open>create_dashboard\<close>, as far as the four cards: the numbers they show, or no cards at
  all when the frame is empty.
\<close>

definition create_dashboard ::
  "(real list \<Rightarrow> real) \<Rightarrow> py_exception + weather_record list \<Rightarrow> pydate \<Rightarrow> string \<Rightarrow>
     st_message list \<times> metric_cards option" where
  "create_dashboard series_mean generated selected_date selected_region =
     (let (msgs, weather_df) = load_weather_data generated selected_date selected_region in
      if weather_df \<noteq> [] then
        (msgs, Some \<lparr>
           avg_temperature = format_1f (series_mean (map temperature weather_df)),
           avg_humidity = format_1f (series_mean (map (\<lambda>r. of_int (humidity r)) weather_df)),
           avg_wind_speed = format_1f (series_mean (map wind_speed weather_df)),
           avg_aqi =
             format_1f (series_mean (map (\<lambda>r. of_int (air_quality_index r)) weather_df))\<rparr>)
      else (msgs, None))"

section \<open>Concrete inputs\<close>

definition nov4 :: pydate where
  "nov4 = \<lparr>year = 2026, month = 11, day = 4\<rparr>"

definition nov3 :: pydate where
  "nov3 = \<lparr>year = 2026, month = 11, day = 3\<rparr>"

definition sample_record :: "string \<Rightarrow> real \<Rightarrow> int \<Rightarrow> weather_record" where
  "sample_record reg t h =
     \<lparr>date = ''2026-11-04'', region = reg, temperature = t, humidity = h,
      wind_speed = 25 / 2, air_quality_index = 80, precipitation = 5 / 4\<rparr>"

text \<open>One day of eight regions, and a collection in which London occurs twice on a day.\<close>

definition sample_day :: "weather_record list" where
  "sample_day =
     [sample_record ''New York'' (201 / 10) 30, sample_record ''London'' (243 / 10) 30,
      sample_record ''Tokyo'' (187 / 10) 30, sample_record ''Mumbai'' (312 / 10) 30,
      sample_record ''Sydney'' (225 / 10) 30, sample_record ''Paris'' (169 / 10) 30,
      sample_record ''Dubai'' (347 / 10) 30, sample_record ''Singapore'' (298 / 10) 31]"

definition duplicate_day :: "weather_record list" where
  "duplicate_day =
     [sample_record ''London'' (201 / 10) 30, sample_record ''Paris'' (169 / 10) 41,
      sample_record ''London'' (243 / 10) 55]"

text \<open>A dictionary without the key \<^verbatim>\<open>date\<close>.\<close>

definition keyless_row :: py_dict where
  "keyless_row = [(''region'', PyStr ''London'')]"

text \<open>
  A clock that passes midnight between the first and the second iteration of the
  generator's loop.
\<close>

definition midnight_clock :: clock where
  "midnight_clock i = (if i = 0 then nov3 else nov4)"

section \<open>Auxiliary notions of the proofs\<close>

text \<open>Calendar order, and reading a string of digits back.\<close>

definition date_less :: "pydate \<Rightarrow> pydate \<Rightarrow> bool" where
  "date_less a b =
     (year a < year b \<or> (year a = year b \<and>
        (month a < month b \<or> (month a = month b \<and> day a < day b))))"

definition digit_value :: "char \<Rightarrow> nat" where
  "digit_value c = of_char c - 48"

definition parse_nat :: "string \<Rightarrow> nat" where
  "parse_nat s = foldl (\<lambda>a c. 10 * a + digit_value c) 0 s"

section \<open>The CSV export\<close>

text \<open>
  Modelled from the spec: the script exports the filtered frame with one call into pandas,
  \<^verbatim>\<open>weather_df.to_csv(index=False)\<close>, and has no code of its own for it. The writer
  follows the spec's words (comma-separated, header row included, no index column) and
  the documented format of pandas: one line per record, ended by a line feed, the columns
  in the order of the dictionary's keys, text as it is, integers in decimal, and floats
  in their shortest decimal form, which for a non-negative value of at most two decimals
  is its decimal expansion with at least one digit after the point; the floats of the
  generator's records are such values. Fields are written without
  quotes, as pandas writes text that has no comma, quote or line break.
\<close>

definition csv_header :: string where
  "csv_header = ''date,region,temperature,humidity,wind_speed,air_quality_index,precipitation''"

definition repr_float :: "real \<Rightarrow> string" where
  "repr_float x =
     (let n = nat \<lfloor>x * 100\<rfloor>; fp = n mod 100 in
      digits (n div 100) @ ''.'' @
      (if fp mod 10 = 0 then [digit_char (fp div 10)]
       else [digit_char (fp div 10), digit_char (fp mod 10)]))"

definition str_int :: "int \<Rightarrow> string" where
  "str_int n = (if n < 0 then CHR ''-'' # digits (nat (- n)) else digits (nat n))"

fun join_comma :: "string list \<Rightarrow> string" where
  "join_comma [] = []"
| "join_comma [f] = f"
| "join_comma (f # g # fs) = f @ CHR '','' # join_comma (g # fs)"

definition csv_row :: "weather_record \<Rightarrow> string" where
  "csv_row r =
     join_comma [date r, region r, repr_float (temperature r), str_int (humidity r),
       repr_float (wind_speed r), str_int (air_quality_index r), repr_float (precipitation r)]"

definition to_csv :: "weather_record list \<Rightarrow> string" where
  "to_csv df = concat (map (\<lambda>line. line @ [CHR 0x0A]) (csv_header # map csv_row df))"

text \<open>
  Modelled from the spec: the repository has no reader. \<open>read_csv\<close> is the parser the
  round trip speaks of: it splits the text into lines and the lines into fields, checks
  the header, and reads the numbers of each row back.
\<close>

fun split_on :: "char \<Rightarrow> string \<Rightarrow> string list" where
  "split_on c [] = [[]]"
| "split_on c (x # xs) =
     (if x = c then [] # split_on c xs
      else (case split_on c xs of [] \<Rightarrow> [[x]] | f # fs \<Rightarrow> (x # f) # fs))"

definition csv_lines :: "string \<Rightarrow> string list" where
  "csv_lines text = (let ls = split_on (CHR 0x0A) text in if last ls = [] then butlast ls else ls)"

definition all_digits :: "string \<Rightarrow> bool" where
  "all_digits s = (s \<noteq> [] \<and> list_all (\<lambda>c. c \<in> set ''0123456789'') s)"

definition parse_float :: "string \<Rightarrow> real option" where
  "parse_float s =
     (case split_on (CHR ''.'') s of
        [ip, fp] \<Rightarrow>
          if all_digits ip \<and> all_digits fp
          then Some (of_nat (parse_nat ip) + of_nat (parse_nat fp) / 10 ^ length fp)
          else None
      | _ \<Rightarrow> None)"

definition parse_int :: "string \<Rightarrow> int option" where
  "parse_int s =
     (case s of
        [] \<Rightarrow> None
      | c # ds \<Rightarrow>
          if c = CHR ''-'' then (if all_digits ds then Some (- int (parse_nat ds)) else None)
          else if all_digits s then Some (int (parse_nat s)) else None)"

definition parse_row :: "string \<Rightarrow> weather_record option" where
  "parse_row line =
     (case split_on (CHR '','') line of
        [a, b, c, d, e, f, g] \<Rightarrow>
          (case (parse_float c, parse_int d, parse_float e, parse_int f, parse_float g) of
             (Some t, Some h, Some w, Some q, Some p) \<Rightarrow>
               Some \<lparr>date = a, region = b, temperature = t, humidity = h, wind_speed = w,
                 air_quality_index = q, precipitation = p\<rparr>
           | _ \<Rightarrow> None)
      | _ \<Rightarrow> None)"

definition read_csv :: "string \<Rightarrow> weather_record list option" where
  "read_csv text =
     (case csv_lines text of
        [] \<Rightarrow> None
      | header # rows \<Rightarrow> if header = csv_header then those (map parse_row rows) else None)"

text \<open>
  The records the round trip is stated for: text without comma or line break, and
  non-negative floats of at most two decimals. All records of the generator are such.
\<close>

definition csv_text :: "string \<Rightarrow> bool" where
  "csv_text s = (CHR '','' \<notin> set s \<and> CHR 0x0A \<notin> set s)"

definition two_decimals :: "real \<Rightarrow> bool" where
  "two_decimals x = (0 \<le> x \<and> of_int \<lfloor>x * 100\<rfloor> = x * 100)"

definition csv_shape :: "weather_record \<Rightarrow> bool" where
  "csv_shape r =
     (csv_text (date r) \<and> csv_text (region r) \<and> two_decimals (temperature r) \<and>
      two_decimals (wind_speed r) \<and> two_decimals (precipitation r))"

definition number_char :: "char \<Rightarrow> bool" where
  "number_char c = (c \<in> set ''0123456789.-'')"

definition number_chars :: "string \<Rightarrow> bool" where
  "number_chars s = list_all number_char s"

section \<open>Shape of the generated collection\<close>

lemma region_loop_keys:
  "map key (fst (region_loop d regs (data, g))) = map key data @ map (Pair d) regs"
proof (induction regs arbitrary: data g)
  case Nil
  then show ?case by simp
next
  case (Cons reg regs)
  obtain r g' where mk: "make_record d reg g = (r, g')"
    by (cases "make_record d reg g")
  then have "key r = (d, reg)"
    by (auto simp: make_record_def key_def Let_def split: prod.splits)
  with mk Cons show ?case by simp
qed

lemma day_loop_keys:
  "map key (fst (day_loop now js (data, g))) =
     map key data @ concat (map (\<lambda>i. map (Pair (strftime_ymd (minus_days (now i) i))) regions) js)"
proof (induction js arbitrary: data g)
  case Nil
  then show ?case by simp
next
  case (Cons i js)
  obtain data' g' where step:
    "region_loop (strftime_ymd (minus_days (now i) i)) regions (data, g) = (data', g')"
    by (cases "region_loop (strftime_ymd (minus_days (now i) i)) regions (data, g)")
  from region_loop_keys [of "strftime_ymd (minus_days (now i) i)" regions data g] step
  have "map key data' = map key data @ map (Pair (strftime_ymd (minus_days (now i) i))) regions"
    by simp
  with Cons [of data' g'] step show ?case by simp
qed

lemma generate_sample_data_keys:
  "map key (generate_sample_data now g) =
     concat (map (\<lambda>i. map (Pair (strftime_ymd (minus_days (now i) i))) regions) [0..<30])"
  using day_loop_keys [of now "[0..<30]" "[]" g] by (simp add: generate_sample_data_def)

lemma length_regions: "length regions = 8"
  by (simp add: regions_def)

lemma length_concat_const:
  "(\<And>x. x \<in> set xs \<Longrightarrow> length (f x) = n) \<Longrightarrow> length (concat (map f xs)) = length xs * n"
  by (induction xs) auto

lemma length_generate_sample_data: "length (generate_sample_data now g) = 240"
proof -
  have "length (map key (generate_sample_data now g)) = length [0..<30::nat] * 8"
    unfolding generate_sample_data_keys
    by (rule length_concat_const) (simp add: length_regions)
  then show ?thesis by simp
qed

section \<open>Rounding and sampling stay within the range\<close>

lemma py_round_ge: "of_int a \<le> x \<Longrightarrow> a \<le> py_round x"
proof -
  assume "of_int a \<le> x"
  then have "a \<le> \<lfloor>x\<rfloor>" by (simp add: le_floor_iff)
  then show ?thesis by (simp add: py_round_def Let_def)
qed

lemma py_round_le: "x \<le> of_int b \<Longrightarrow> py_round x \<le> b"
proof -
  assume xb: "x \<le> of_int b"
  then have fb: "\<lfloor>x\<rfloor> \<le> b" by (simp add: floor_le_iff)
  show ?thesis
  proof (cases "\<lfloor>x\<rfloor> = b")
    case True
    with xb have "x - of_int \<lfloor>x\<rfloor> \<le> 0" by simp
    then show ?thesis using True by (simp add: py_round_def Let_def)
  next
    case False
    with fb have "\<lfloor>x\<rfloor> + 1 \<le> b" by simp
    then show ?thesis by (auto simp: py_round_def Let_def)
  qed
qed

lemma py_round_ndigits_bounds:
  assumes "of_int a \<le> x" "x \<le> of_int b"
  shows "of_int a \<le> py_round_ndigits x n \<and> py_round_ndigits x n \<le> of_int b"
proof -
  have pos: "(0::real) < 10 ^ n" by simp
  have "of_int (a * 10 ^ n) \<le> x * 10 ^ n" "x * 10 ^ n \<le> of_int (b * 10 ^ n)"
    using assms by simp_all
  then have "a * 10 ^ n \<le> py_round (x * 10 ^ n)" "py_round (x * 10 ^ n) \<le> b * 10 ^ n"
    by (simp_all only: py_round_ge py_round_le)
  then have "(of_int (a * 10 ^ n) :: real) \<le> of_int (py_round (x * 10 ^ n))"
    "(of_int (py_round (x * 10 ^ n)) :: real) \<le> of_int (b * 10 ^ n)"
    by (simp_all only: of_int_le_iff)
  then show ?thesis
    using pos by (simp add: py_round_ndigits_def pos_le_divide_eq pos_divide_le_eq)
qed

lemma random_uniform_bounds:
  assumes "a \<le> b" "rng_ok g"
  shows "a \<le> fst (random_uniform a b g) \<and> fst (random_uniform a b g) \<le> b"
proof -
  from assms have u: "0 \<le> g 0" "g 0 \<le> 1" by (simp_all add: rng_ok_def less_imp_le)
  have "0 \<le> (b - a) * g 0" using assms u by simp
  moreover have "(b - a) * g 0 \<le> (b - a) * 1"
    using assms u by (intro mult_left_mono) simp_all
  ultimately show ?thesis by (simp add: random_uniform_def)
qed

lemma random_uniform_rng_ok: "rng_ok g \<Longrightarrow> rng_ok (snd (random_uniform a b g))"
  by (simp add: random_uniform_def rng_ok_def)

lemma make_record_in_range:
  assumes "rng_ok g"
  shows "in_range (fst (make_record d reg g)) \<and> rng_ok (snd (make_record d reg g))"
proof -
  obtain t g1 where 1: "random_uniform 15 35 g = (t, g1)" by (cases "random_uniform 15 35 g")
  obtain h g2 where 2: "random_uniform 30 90 g1 = (h, g2)" by (cases "random_uniform 30 90 g1")
  obtain w g3 where 3: "random_uniform 0 30 g2 = (w, g3)" by (cases "random_uniform 0 30 g2")
  obtain a g4 where 4: "random_uniform 20 150 g3 = (a, g4)" by (cases "random_uniform 20 150 g3")
  obtain p g5 where 5: "random_uniform 0 100 g4 = (p, g5)" by (cases "random_uniform 0 100 g4")
  from random_uniform_bounds [of 15 35 g] random_uniform_rng_ok [of g 15 35] assms 1
  have t: "of_int 15 \<le> t" "t \<le> of_int 35" and g1: "rng_ok g1" by simp_all
  from random_uniform_bounds [of 30 90 g1] random_uniform_rng_ok [of g1 30 90] g1 2
  have h: "of_int 30 \<le> h" "h \<le> of_int 90" and g2: "rng_ok g2" by simp_all
  from random_uniform_bounds [of 0 30 g2] random_uniform_rng_ok [of g2 0 30] g2 3
  have w: "of_int 0 \<le> w" "w \<le> of_int 30" and g3: "rng_ok g3" by simp_all
  from random_uniform_bounds [of 20 150 g3] random_uniform_rng_ok [of g3 20 150] g3 4
  have a: "of_int 20 \<le> a" "a \<le> of_int 150" and g4: "rng_ok g4" by simp_all
  from random_uniform_bounds [of 0 100 g4] random_uniform_rng_ok [of g4 0 100] g4 5
  have p: "of_int 0 \<le> p" "p \<le> of_int 100" and g5: "rng_ok g5" by simp_all
  have mk: "make_record d reg g =
      (\<lparr>date = d, region = reg, temperature = py_round_ndigits t 1, humidity = py_round h,
        wind_speed = py_round_ndigits w 1, air_quality_index = py_round a,
        precipitation = py_round_ndigits p 2\<rparr>, g5)"
    by (simp add: make_record_def 1 2 3 4 5)
  have "in_range (fst (make_record d reg g))"
    unfolding mk in_range_def
    using py_round_ndigits_bounds [OF t, of 1] py_round_ge [OF h(1)] py_round_le [OF h(2)]
      py_round_ndigits_bounds [OF w, of 1] py_round_ge [OF a(1)] py_round_le [OF a(2)]
      py_round_ndigits_bounds [OF p, of 2]
    by simp
  then show ?thesis using g5 by (simp add: mk)
qed

text \<open>
  A property of single records that holds of all generated records: \<open>Q\<close> is what the
  record construction needs of the random source, and maintains.
\<close>

lemma region_loop_all:
  assumes step: "\<And>d reg g. Q g \<Longrightarrow> P (fst (make_record d reg g)) \<and> Q (snd (make_record d reg g))"
  shows "Q g \<Longrightarrow> list_all P data \<Longrightarrow>
     list_all P (fst (region_loop d regs (data, g))) \<and> Q (snd (region_loop d regs (data, g)))"
proof (induction regs arbitrary: data g)
  case Nil
  then show ?case by simp
next
  case (Cons reg regs)
  obtain r g' where mk: "make_record d reg g = (r, g')" by (cases "make_record d reg g")
  with step [OF Cons.prems(1), of d reg] have "P r" "Q g'" by simp_all
  with Cons.prems have "Q g'" "list_all P (data @ [r])" by simp_all
  from Cons.IH [OF this] mk show ?case by simp
qed

lemma day_loop_all:
  assumes step: "\<And>d reg g. Q g \<Longrightarrow> P (fst (make_record d reg g)) \<and> Q (snd (make_record d reg g))"
  shows "Q g \<Longrightarrow> list_all P data \<Longrightarrow>
     list_all P (fst (day_loop now js (data, g))) \<and> Q (snd (day_loop now js (data, g)))"
proof (induction js arbitrary: data g)
  case Nil
  then show ?case by simp
next
  case (Cons i js)
  obtain data' g' where loop:
    "region_loop (strftime_ymd (minus_days (now i) i)) regions (data, g) = (data', g')"
    by (cases "region_loop (strftime_ymd (minus_days (now i) i)) regions (data, g)")
  with region_loop_all [of Q P, OF step Cons.prems, of "strftime_ymd (minus_days (now i) i)" regions]
  have "Q g'" "list_all P data'" by simp_all
  from Cons.IH [OF this] loop show ?case by simp
qed

lemma generate_sample_data_all:
  assumes "\<And>d reg g. Q g \<Longrightarrow> P (fst (make_record d reg g)) \<and> Q (snd (make_record d reg g))"
    and "Q g"
  shows "list_all P (generate_sample_data now g)"
  using day_loop_all [of Q P g "[]" now "[0..<30]"] assms by (simp add: generate_sample_data_def)

lemma generate_sample_data_in_range:
  "rng_ok g \<Longrightarrow> list_all in_range (generate_sample_data now g)"
  by (rule generate_sample_data_all [of rng_ok]) (simp_all add: make_record_in_range)

lemma py_round_of_int: "py_round (of_int k) = k"
  by (simp add: py_round_def)

lemma format_1f_one_decimal: "one_decimal x \<Longrightarrow> format_1f x = x"
proof -
  assume "one_decimal x"
  then have fl: "of_int \<lfloor>x * 10\<rfloor> = x * 10" unfolding one_decimal_def .
  have "py_round (of_int \<lfloor>x * 10\<rfloor>) = \<lfloor>x * 10\<rfloor>" by (rule py_round_of_int)
  then have "py_round (x * 10) = \<lfloor>x * 10\<rfloor>" by (simp only: fl)
  then have "format_1f x = of_int \<lfloor>x * 10\<rfloor> / 10"
    by (simp add: format_1f_def py_round_ndigits_def)
  also have "\<dots> = x" by (simp only: fl)
  finally show ?thesis .
qed

lemma format_1f_of_int: "format_1f (of_int k) = of_int k"
  by (rule format_1f_one_decimal) (simp add: one_decimal_def)

lemma make_record_one_decimal:
  "one_decimal (temperature (fst (make_record d reg g))) \<and>
   one_decimal (wind_speed (fst (make_record d reg g)))"
  by (simp add: make_record_def one_decimal_def py_round_ndigits_def split: prod.splits)

lemma generate_sample_data_one_decimal:
  "list_all (\<lambda>r. one_decimal (temperature r) \<and> one_decimal (wind_speed r))
     (generate_sample_data now g)"
  by (rule generate_sample_data_all [of "\<lambda>g. True"]) (simp_all add: make_record_one_decimal)

section \<open>Dates of the window are printed differently\<close>

lemma date_less_trans: "date_less a b \<Longrightarrow> date_less b c \<Longrightarrow> date_less a c"
  by (auto simp: date_less_def)

lemma date_less_irrefl: "\<not> date_less a a"
  by (simp add: date_less_def)

lemma prev_day_less: "date_less (prev_day d) d"
  by (auto simp: prev_day_def date_less_def)

lemma minus_days_less: "0 < n \<Longrightarrow> date_less (minus_days d n) d"
proof (induction n arbitrary: d)
  case 0
  then show ?case by simp
next
  case (Suc n)
  show ?case
  proof (cases n)
    case 0
    then show ?thesis by (simp add: prev_day_less)
  next
    case (Suc m)
    then have "date_less (minus_days (prev_day d) n) (prev_day d)"
      using Suc.IH [of "prev_day d"] by simp
    then show ?thesis
      using prev_day_less [of d] by (auto intro: date_less_trans)
  qed
qed

lemma minus_days_add: "minus_days d (a + b) = minus_days (minus_days d a) b"
  by (induction a arbitrary: d) simp_all

lemma minus_days_inj: "minus_days d i = minus_days d j \<Longrightarrow> i = j"
proof (rule ccontr)
  assume eq: "minus_days d i = minus_days d j" and ne: "i \<noteq> j"
  have aux: "\<not> (a < b \<and> minus_days d a = minus_days d b)" for a b
  proof
    assume ab: "a < b \<and> minus_days d a = minus_days d b"
    then have "0 < b - a" and "a + (b - a) = b" by simp_all
    then have "date_less (minus_days (minus_days d a) (b - a)) (minus_days d a)"
      and "minus_days (minus_days d a) (b - a) = minus_days d b"
      using minus_days_less [of "b - a" "minus_days d a"] minus_days_add [of d a "b - a"]
      by (simp_all only:)
    with ab have "date_less (minus_days d a) (minus_days d a)" by (simp only:)
    then show False by (simp only: date_less_irrefl)
  qed
  from ne have "i < j \<or> j < i" by auto
  with eq aux [of i j] aux [of j i] show False by metis
qed

lemma digit_value_digit_char: "k < 10 \<Longrightarrow> digit_value (digit_char k) = k"
proof -
  assume "k < 10"
  then have "k \<in> {0, 1, 2, 3, 4, 5, 6, 7, 8, 9}" by auto
  then show ?thesis
    by (auto simp: digit_value_def digit_char_def)
qed

lemma digit_char_not_dash: "k < 10 \<Longrightarrow> digit_char k \<noteq> CHR ''-''"
proof -
  assume "k < 10"
  then have "k \<in> {0, 1, 2, 3, 4, 5, 6, 7, 8, 9}" by auto
  then show ?thesis
    by (auto simp: digit_char_def)
qed

lemma parse_nat_snoc: "parse_nat (s @ [c]) = 10 * parse_nat s + digit_value c"
  by (simp add: parse_nat_def)

lemma parse_nat_digits: "parse_nat (digits n) = n"
proof (induction n rule: digits.induct)
  case (1 n)
  show ?case
  proof (cases "n < 10")
    case True
    then show ?thesis
      by (simp add: digits.simps [of n] parse_nat_def digit_value_digit_char)
  next
    case False
    with 1 have "parse_nat (digits (n div 10)) = n div 10" by simp
    with False show ?thesis
      by (simp add: digits.simps [of n] parse_nat_snoc digit_value_digit_char)
  qed
qed

lemma parse_nat_zeros: "parse_nat (replicate k (CHR ''0'') @ s) = parse_nat s"
proof -
  have "foldl (\<lambda>a c. 10 * a + digit_value c) 0 (replicate k (CHR ''0'')) = 0"
    by (induction k) (simp_all add: digit_value_def)
  then show ?thesis by (simp add: parse_nat_def)
qed

lemma parse_nat_zfill: "parse_nat (zfill w (digits n)) = n"
  by (simp add: zfill_def parse_nat_zeros parse_nat_digits)

lemma digits_no_dash: "CHR ''-'' \<notin> set (digits n)"
proof (induction n rule: digits.induct)
  case (1 n)
  show ?case
  proof (cases "n < 10")
    case True
    then show ?thesis
      using digit_char_not_dash [of n] by (simp add: digits.simps [of n])
  next
    case False
    with 1 have "CHR ''-'' \<notin> set (digits (n div 10))" by simp
    with False show ?thesis
      using digit_char_not_dash [of "n mod 10"] by (simp add: digits.simps [of n])
  qed
qed

lemma zfill_no_dash: "CHR ''-'' \<notin> set (zfill w (digits n))"
  using digits_no_dash [of n] by (simp add: zfill_def)

lemma split_at_dash:
  "CHR ''-'' \<notin> set a \<Longrightarrow> CHR ''-'' \<notin> set b \<Longrightarrow>
     a @ CHR ''-'' # r = b @ CHR ''-'' # s \<Longrightarrow> a = b \<and> r = s"
proof (induction a arbitrary: b)
  case Nil
  then show ?case by (cases b) auto
next
  case (Cons x a)
  then show ?case by (cases b) auto
qed

lemma strftime_ymd_inj:
  assumes "strftime_ymd a = strftime_ymd b" "0 \<le> year a" "0 \<le> year b"
  shows "a = b"
proof -
  let ?Y = "\<lambda>d. zfill 4 (digits (nat (year d)))"
  let ?M = "\<lambda>d. zfill 2 (digits (month d))"
  let ?D = "\<lambda>d. zfill 2 (digits (day d))"
  from assms(1) have eq: "?Y a @ CHR ''-'' # (?M a @ CHR ''-'' # ?D a) = ?Y b @ CHR ''-'' # (?M b @ CHR ''-'' # ?D b)"
    by (simp add: strftime_ymd_def)
  from split_at_dash [OF zfill_no_dash zfill_no_dash eq]
  have y: "?Y a = ?Y b" and rest: "?M a @ CHR ''-'' # ?D a = ?M b @ CHR ''-'' # ?D b" by simp_all
  from split_at_dash [OF zfill_no_dash zfill_no_dash rest]
  have m: "?M a = ?M b" and d: "?D a = ?D b" by simp_all
  from y have "parse_nat (?Y a) = parse_nat (?Y b)" by simp
  then have "nat (year a) = nat (year b)" by (simp only: parse_nat_zfill)
  with assms(2,3) have 1: "year a = year b" by simp
  from m have "parse_nat (?M a) = parse_nat (?M b)" by simp
  then have 2: "month a = month b" by (simp only: parse_nat_zfill)
  from d have "parse_nat (?D a) = parse_nat (?D b)" by simp
  then have 3: "day a = day b" by (simp only: parse_nat_zfill)
  from 1 2 3 show ?thesis by simp
qed


text \<open>Stepping back up to 31 days crosses at most one new year.\<close>

lemma minus_days_within_month: "n < day d \<Longrightarrow> minus_days d n = d\<lparr>day := day d - n\<rparr>"
proof (induction n arbitrary: d)
  case 0
  then show ?case by simp
next
  case (Suc n)
  then have "prev_day d = d\<lparr>day := day d - 1\<rparr>" by (simp add: prev_day_def)
  with Suc.IH [of "prev_day d"] Suc.prems show ?case by simp
qed

lemma minus_days_crossing:
  "year (minus_days d n) = year d \<or>
   (\<exists>k. 1 \<le> k \<and> k \<le> n \<and>
      minus_days d n = minus_days \<lparr>year = year d - 1, month = 12, day = 31\<rparr> (n - k))"
proof (induction n arbitrary: d)
  case 0
  then show ?case by simp
next
  case (Suc n)
  show ?case
  proof (cases "year (prev_day d) = year d")
    case True
    from Suc [of "prev_day d"] show ?thesis
    proof
      assume "year (minus_days (prev_day d) n) = year (prev_day d)"
      with True show ?thesis by simp
    next
      assume "\<exists>k. 1 \<le> k \<and> k \<le> n \<and> minus_days (prev_day d) n =
        minus_days \<lparr>year = year (prev_day d) - 1, month = 12, day = 31\<rparr> (n - k)"
      then obtain k where k: "1 \<le> k" "k \<le> n" "minus_days (prev_day d) n =
        minus_days \<lparr>year = year d - 1, month = 12, day = 31\<rparr> (n - k)"
        using True by auto
      then have "1 \<le> Suc k \<and> Suc k \<le> Suc n \<and> minus_days d (Suc n) =
        minus_days \<lparr>year = year d - 1, month = 12, day = 31\<rparr> (Suc n - Suc k)"
        by simp
      then show ?thesis by blast
    qed
  next
    case False
    then have "prev_day d = \<lparr>year = year d - 1, month = 12, day = 31\<rparr>"
      by (simp add: prev_day_def split: if_splits)
    then have "1 \<le> (1::nat) \<and> 1 \<le> Suc n \<and> minus_days d (Suc n) =
        minus_days \<lparr>year = year d - 1, month = 12, day = 31\<rparr> (Suc n - 1)"
      by simp
    then show ?thesis by blast
  qed
qed

lemma minus_days_year_window: "n \<le> 31 \<Longrightarrow> year d - 1 \<le> year (minus_days d n)"
proof -
  assume n: "n \<le> 31"
  from minus_days_crossing [of d n] show ?thesis
  proof
    assume "year (minus_days d n) = year d"
    then show ?thesis by simp
  next
    assume "\<exists>k. 1 \<le> k \<and> k \<le> n \<and>
      minus_days d n = minus_days \<lparr>year = year d - 1, month = 12, day = 31\<rparr> (n - k)"
    then obtain k where k: "1 \<le> k" "k \<le> n"
      "minus_days d n = minus_days \<lparr>year = year d - 1, month = 12, day = 31\<rparr> (n - k)"
      by blast
    with n have "n - k < day \<lparr>year = year d - 1, month = 12, day = 31\<rparr>" by simp
    from minus_days_within_month [OF this] k(3) show ?thesis by simp
  qed
qed

lemma window_dates_inj:
  assumes "1 \<le> year today" "i \<le> 31" "j \<le> 31"
    "strftime_ymd (minus_days today i) = strftime_ymd (minus_days today j)"
  shows "i = j"
proof -
  from assms(1) minus_days_year_window [OF assms(2), of today]
    minus_days_year_window [OF assms(3), of today]
  have "0 \<le> year (minus_days today i)" "0 \<le> year (minus_days today j)" by simp_all
  with assms(4) have "minus_days today i = minus_days today j" by (rule strftime_ymd_inj)
  then show ?thesis by (rule minus_days_inj)
qed

section \<open>Keys of the collection generated on one day\<close>

lemma distinct_regions: "distinct regions"
  by (simp add: regions_def)

lemma distinct_concat_pairs:
  "distinct js \<Longrightarrow> distinct regs \<Longrightarrow> inj_on D (set js) \<Longrightarrow>
     distinct (concat (map (\<lambda>i. map (Pair (D i)) regs) js))"
proof (induction js)
  case Nil
  then show ?case by simp
next
  case (Cons i js)
  then have "distinct (concat (map (\<lambda>i. map (Pair (D i)) regs) js))" by simp
  moreover have "distinct (map (Pair (D i)) regs)"
    using Cons.prems(2) by (simp add: distinct_map inj_on_def)
  moreover have ne: "\<forall>j\<in>set js. D j \<noteq> D i"
    using Cons.prems(1,3) by (auto simp: inj_on_def)
  have "set (map (Pair (D i)) regs) \<inter> set (concat (map (\<lambda>i. map (Pair (D i)) regs) js)) = {}"
    using ne by auto
  ultimately show ?case by simp
qed

lemma distinct_key_unique:
  "distinct (map f xs) \<Longrightarrow> x \<in> set xs \<Longrightarrow> length (filter (\<lambda>y. f y = f x) xs) = 1"
proof (induction xs)
  case Nil
  then show ?case by simp
next
  case (Cons a xs)
  show ?case
  proof (cases "f a = f x")
    case True
    with Cons.prems have "\<forall>y\<in>set xs. f y \<noteq> f x" by (auto simp: image_iff)
    then have "filter (\<lambda>y. f y = f x) xs = []" by (simp add: filter_empty_conv)
    with True show ?thesis by simp
  next
    case False
    with Cons show ?thesis by auto
  qed
qed

lemma distinct_key_at_most_one:
  "distinct (map f xs) \<Longrightarrow> length (filter (\<lambda>y. f y = k) xs) \<le> 1"
proof (induction xs)
  case Nil
  then show ?case by simp
next
  case (Cons a xs)
  show ?case
  proof (cases "f a = k")
    case True
    with Cons.prems have "\<forall>y\<in>set xs. f y \<noteq> k" by (auto simp: image_iff)
    then have "filter (\<lambda>y. f y = k) xs = []" by (simp add: filter_empty_conv)
    with True show ?thesis by simp
  next
    case False
    with Cons show ?thesis by auto
  qed
qed

lemma fixed_clock_keys:
  assumes "\<forall>i<30. now i = today"
  shows "map key (generate_sample_data now g) =
     concat (map (\<lambda>i. map (Pair (strftime_ymd (minus_days today i))) regions) [0..<30])"
proof -
  have "map (\<lambda>i. map (Pair (strftime_ymd (minus_days (now i) i))) regions) [0..<30] =
        map (\<lambda>i. map (Pair (strftime_ymd (minus_days today i))) regions) [0..<30]"
    using assms by (intro map_cong) simp_all
  then show ?thesis by (simp only: generate_sample_data_keys)
qed

lemma fixed_clock_distinct:
  assumes "\<forall>i<30. now i = today" "1 \<le> year today"
  shows "distinct (map key (generate_sample_data now g))"
proof -
  have "inj_on (\<lambda>i. strftime_ymd (minus_days today i)) (set [0..<30])"
    using window_dates_inj [OF assms(2)] by (auto simp: inj_on_def)
  then show ?thesis
    unfolding fixed_clock_keys [OF assms(1)]
    by (intro distinct_concat_pairs distinct_regions) simp
qed

lemma fixed_clock_dates:
  assumes "\<forall>i<30. now i = today" "r \<in> set (generate_sample_data now g)"
  shows "\<exists>i<30. date r = strftime_ymd (minus_days today i)"
proof -
  from assms(2) have "key r \<in> set (map key (generate_sample_data now g))" by simp
  then show ?thesis
    unfolding fixed_clock_keys [OF assms(1)] by (auto simp: key_def)
qed


section \<open>Evaluating the concrete inputs\<close>

lemma strftime_nov4: "strftime_ymd nov4 = ''2026-11-04''"
  unfolding nov4_def by code_simp

lemma strftime_nov3: "strftime_ymd nov3 = ''2026-11-03''"
  unfolding nov3_def by code_simp

lemma distinct_sample_day: "distinct (map key sample_day)"
  by (simp add: sample_day_def sample_record_def key_def)

lemma fixed_clock_fixed: "\<forall>i<30. fixed_clock d i = d"
  by (simp add: fixed_clock_def)

lemma rng_ok_half: "rng_ok (const_rng (1 / 2))"
  by (simp add: rng_ok_def const_rng_def)

lemma year_nov4: "1 \<le> year nov4"
  by (simp add: nov4_def)

section \<open>The filter\<close>

lemma load_weather_data_Inr:
  "load_weather_data (Inr data) d sel =
     (let rows = filter (\<lambda>r. date r = strftime_ymd d \<and>
                            (sel \<noteq> ''All Regions'' \<longrightarrow> region r = sel)) data
      in if rows = [] then ([StWarning ''No data found for the selected filters.''], [])
         else ([], rows))"
  by (simp add: load_weather_data_def load_body_def Let_def conj_commute)

lemma load_weather_data_rows:
  "snd (load_weather_data (Inr data) d sel) =
     filter (\<lambda>r. date r = strftime_ymd d \<and> (sel \<noteq> ''All Regions'' \<longrightarrow> region r = sel)) data"
  by (simp add: load_weather_data_Inr Let_def)

lemma length_filter_key:
  "length (filter (\<lambda>r. date r = s \<and> region r = reg) data) =
   length (filter (\<lambda>k. k = (s, reg)) (map key data))"
  by (induction data) (auto simp: key_def)

lemma filter_pairs_other:
  "d \<noteq> s \<Longrightarrow> filter (\<lambda>k. k = (s, reg)) (map (Pair d) regs) = []"
  by (induction regs) auto

lemma filter_concat_other:
  "\<forall>i\<in>set js. D i \<noteq> s \<Longrightarrow>
   filter (\<lambda>k. k = (s, reg)) (concat (map (\<lambda>i. map (Pair (D i)) regs) js)) = []"
  by (induction js) (simp_all add: filter_pairs_other)

lemma london_once: "length (filter (\<lambda>k. k = (s, ''London'')) (map (Pair s) regions)) = 1"
  by (simp add: regions_def)

lemma minus_days_nov4_1: "strftime_ymd (minus_days nov4 1) = ''2026-11-03''"
  unfolding nov4_def by code_simp

lemma upt_30: "[0..<30] = 0 # Suc 0 # [Suc (Suc 0)..<30]"
proof -
  have "[0..<30] = 0 # [Suc 0..<30]" by (rule upt_conv_Cons) simp
  moreover have "[Suc 0..<30] = Suc 0 # [Suc (Suc 0)..<30]" by (rule upt_conv_Cons) simp
  ultimately show ?thesis by (simp only:)
qed

lemma midnight_london_rows:
  "length (snd (load_weather_data (Inr (generate_sample_data midnight_clock (const_rng 0)))
     nov3 ''London'')) = 2"
proof -
  let ?D = "\<lambda>i. strftime_ymd (minus_days (midnight_clock i) i)"
  let ?s = "''2026-11-03''"
  have d0: "?D 0 = ?s" by (simp add: midnight_clock_def strftime_nov3)
  have d1: "?D (Suc 0) = ?s"
    using minus_days_nov4_1 by (simp add: midnight_clock_def)
  have later: "\<forall>i\<in>set [Suc (Suc 0)..<30]. ?D i \<noteq> ?s"
  proof
    fix i assume "i \<in> set [Suc (Suc 0)..<30]"
    then have i: "2 \<le> i" "i < 30" by (simp_all only: set_upt atLeastLessThan_iff) simp
    then have "?D i = strftime_ymd (minus_days nov4 i)" by (simp add: midnight_clock_def)
    moreover have "strftime_ymd (minus_days nov4 i) \<noteq> strftime_ymd (minus_days nov4 1)"
      using window_dates_inj [OF year_nov4, of i 1] i by auto
    ultimately show "?D i \<noteq> ?s" unfolding minus_days_nov4_1 by simp
  qed
  have "length (filter (\<lambda>k. k = (?s, ''London''))
      (concat (map (\<lambda>i. map (Pair (?D i)) regions) [0..<30]))) =
      length (filter (\<lambda>k. k = (?s, ''London'')) (map (Pair (?D 0)) regions)) +
      (length (filter (\<lambda>k. k = (?s, ''London'')) (map (Pair (?D (Suc 0))) regions)) +
      length (filter (\<lambda>k. k = (?s, ''London''))
        (concat (map (\<lambda>i. map (Pair (?D i)) regions) [Suc (Suc 0)..<30]))))"
    by (simp only: upt_30 list.map concat.simps filter_append length_append)
  also have "\<dots> = 2"
    by (simp only: d0 d1 london_once filter_concat_other [OF later]) simp
  finally have cnt: "length (filter (\<lambda>k. k = (?s, ''London''))
      (concat (map (\<lambda>i. map (Pair (?D i)) regions) [0..<30]))) = 2" .
  have "length (snd (load_weather_data (Inr (generate_sample_data midnight_clock (const_rng 0)))
      nov3 ''London'')) =
      length (filter (\<lambda>r. date r = ?s \<and> region r = ''London'')
        (generate_sample_data midnight_clock (const_rng 0)))"
    by (simp add: load_weather_data_rows strftime_nov3)
  also have "\<dots> = length (filter (\<lambda>k. k = (?s, ''London''))
      (map key (generate_sample_data midnight_clock (const_rng 0))))"
    by (rule length_filter_key)
  also have "\<dots> = 2"
    unfolding generate_sample_data_keys by (rule cnt)
  finally show ?thesis .
qed

text \<open>
  Claim C1, as stated, promises that a named region yields a single record for every
  record collection. It fails on a collection that holds two records of one region on one
  day: both are returned. The generator itself returns such a collection when the clock
  passes midnight between two iterations of its loop.
\<close>

theorem load_weather_data_named_region_counterexample:
  "snd (load_weather_data (Inr duplicate_day) nov4 ''London'') =
     [sample_record ''London'' (201 / 10) 30, sample_record ''London'' (243 / 10) 55] \<and>
   length (snd (load_weather_data (Inr (generate_sample_data midnight_clock (const_rng 0)))
     nov3 ''London'')) = 2"
proof -
  have "snd (load_weather_data (Inr duplicate_day) nov4 ''London'') =
      [sample_record ''London'' (201 / 10) 30, sample_record ''London'' (243 / 10) 55]"
    by (simp add: load_weather_data_rows strftime_nov4 duplicate_day_def sample_record_def)
  with midnight_london_rows show ?thesis by (simp only: simp_thms)
qed

text \<open>
  Claim C1, amended: for every record collection, selected date and region selection, the
  filter returns exactly the records whose date string equals the printed selected date
  and, when the selection is not "All Regions", whose region equals the selection, in the
  order of the collection; with "All Regions" it returns all records of that date; and
  when no two records of the collection share date and region, a named region yields at
  most one record.
\<close>

theorem load_weather_data_filter:
  "snd (load_weather_data (Inr data) d sel) =
     filter (\<lambda>r. date r = strftime_ymd d \<and> (sel \<noteq> ''All Regions'' \<longrightarrow> region r = sel)) data \<and>
   (sel = ''All Regions'' \<longrightarrow>
      snd (load_weather_data (Inr data) d sel) = filter (\<lambda>r. date r = strftime_ymd d) data) \<and>
   (sel \<noteq> ''All Regions'' \<and> distinct (map key data) \<longrightarrow>
      length (snd (load_weather_data (Inr data) d sel)) \<le> 1)"
proof -
  have "length (filter (\<lambda>r. date r = strftime_ymd d \<and> region r = sel) data) \<le> 1"
    if "distinct (map key data)"
    using distinct_key_at_most_one [OF that, of "(strftime_ymd d, sel)"]
    by (simp add: key_def)
  then show ?thesis
    by (simp add: load_weather_data_rows)
qed

theorem load_weather_data_filter_witness:
  "snd (load_weather_data (Inr sample_day) nov4 ''London'') =
     [sample_record ''London'' (243 / 10) 30] \<and>
   snd (load_weather_data (Inr sample_day) nov4 ''All Regions'') = sample_day \<and>
   length (snd (load_weather_data (Inr sample_day) nov4 ''London'')) \<le> 1"
proof -
  have named: "''London'' \<noteq> ''All Regions''" by simp
  from load_weather_data_filter [of sample_day nov4 "''London''"] named distinct_sample_day
  have 2: "length (snd (load_weather_data (Inr sample_day) nov4 ''London'')) \<le> 1"
    by blast
  from load_weather_data_filter [of sample_day nov4 "''London''"] named
  have 1: "snd (load_weather_data (Inr sample_day) nov4 ''London'') =
      filter (\<lambda>r. date r = strftime_ymd nov4 \<and> region r = ''London'') sample_day"
    by simp
  from load_weather_data_filter [of sample_day nov4 "''All Regions''"]
  have 3: "snd (load_weather_data (Inr sample_day) nov4 ''All Regions'') =
      filter (\<lambda>r. date r = strftime_ymd nov4) sample_day"
    by simp
  have "filter (\<lambda>r. date r = strftime_ymd nov4 \<and> region r = ''London'') sample_day =
      [sample_record ''London'' (243 / 10) 30]"
    by (simp add: strftime_nov4 sample_day_def sample_record_def)
  moreover have "filter (\<lambda>r. date r = strftime_ymd nov4) sample_day = sample_day"
    by (simp add: strftime_nov4 sample_day_def sample_record_def)
  ultimately show ?thesis using 1 2 3 by simp
qed

section \<open>The generator\<close>

lemma days_in_month_pos: "28 \<le> days_in_month y m"
  by (simp add: days_in_month_def)

lemma next_prev_day: "calendar_ok d \<Longrightarrow> next_day (prev_day d) = d"
proof -
  assume ok: "calendar_ok d"
  show ?thesis
  proof (cases "1 < day d")
    case True
    with ok have "day d - 1 < days_in_month (year d) (month d)"
      unfolding calendar_ok_def by linarith
    with True show ?thesis by (simp add: prev_day_def next_day_def)
  next
    case False
    with ok have d1: "day d = 1" by (simp add: calendar_ok_def)
    show ?thesis
    proof (cases "1 < month d")
      case True
      with ok have "month d - 1 < 12" and "Suc (month d - 1) = month d"
        unfolding calendar_ok_def by linarith+
      with True d1 show ?thesis by (simp add: prev_day_def next_day_def)
    next
      case False
      with ok have "month d = 1" by (simp add: calendar_ok_def)
      with d1 show ?thesis by (simp add: prev_day_def next_day_def days_in_month_def)
    qed
  qed
qed

lemma calendar_ok_prev_day: "calendar_ok d \<Longrightarrow> calendar_ok (prev_day d)"
proof -
  assume ok: "calendar_ok d"
  show ?thesis
  proof (cases "1 < day d")
    case True
    with ok have "1 \<le> day d - 1" "day d - 1 \<le> days_in_month (year d) (month d)"
      unfolding calendar_ok_def by linarith+
    with ok True show ?thesis by (simp add: calendar_ok_def prev_day_def)
  next
    case False
    show ?thesis
    proof (cases "1 < month d")
      case True
      with ok have "1 \<le> month d - 1" "month d - 1 \<le> 12"
        unfolding calendar_ok_def by linarith+
      moreover have "1 \<le> days_in_month (year d) (month d - 1)"
        using days_in_month_pos [of "year d" "month d - 1"] by linarith
      ultimately show ?thesis
        using True \<open>\<not> 1 < day d\<close> by (simp add: calendar_ok_def prev_day_def)
    next
      case False
      with \<open>\<not> 1 < day d\<close> show ?thesis
        by (simp add: calendar_ok_def prev_day_def days_in_month_def)
    qed
  qed
qed

lemma minus_days_Suc: "minus_days d (Suc n) = prev_day (minus_days d n)"
  by (induction n arbitrary: d) simp_all

lemma calendar_ok_minus_days: "calendar_ok d \<Longrightarrow> calendar_ok (minus_days d n)"
  by (induction n arbitrary: d) (simp_all add: calendar_ok_prev_day)

lemma next_minus_days: "calendar_ok d \<Longrightarrow> next_day (minus_days d (Suc n)) = minus_days d n"
  by (simp only: minus_days_Suc next_prev_day calendar_ok_minus_days)

lemma window_dates_distinct:
  "1 \<le> year today \<Longrightarrow> distinct (map (\<lambda>i. strftime_ymd (minus_days today i)) [0..<30])"
proof -
  assume yr: "1 \<le> year today"
  have "inj_on (\<lambda>i. strftime_ymd (minus_days today i)) (set [0..<30])"
    using window_dates_inj [OF yr] by (auto simp: inj_on_def)
  then show ?thesis by (simp add: distinct_map)
qed

lemma midnight_not_distinct:
  "\<not> distinct (map key (generate_sample_data midnight_clock (const_rng 0)))"
proof
  assume "distinct (map key (generate_sample_data midnight_clock (const_rng 0)))"
  from distinct_key_at_most_one [OF this, of "(''2026-11-03'', ''London'')"]
  have "length (filter (\<lambda>r. date r = ''2026-11-03'' \<and> region r = ''London'')
      (generate_sample_data midnight_clock (const_rng 0))) \<le> 1"
    by (simp add: key_def)
  moreover have "length (filter (\<lambda>r. date r = ''2026-11-03'' \<and> region r = ''London'')
      (generate_sample_data midnight_clock (const_rng 0))) = 2"
    using midnight_london_rows by (simp add: load_weather_data_rows strftime_nov3)
  ultimately show False by simp
qed

lemma hd_concat_blocks:
  "js \<noteq> [] \<Longrightarrow> regs \<noteq> [] \<Longrightarrow>
   hd (concat (map (\<lambda>i. map (Pair (D i)) regs) js)) = (D (hd js), hd regs)"
  by (cases js) (simp_all add: hd_append hd_map)

lemma last_concat_blocks:
  "js \<noteq> [] \<Longrightarrow> regs \<noteq> [] \<Longrightarrow>
   last (concat (map (\<lambda>i. map (Pair (D i)) regs) js)) = (D (last js), last regs)"
  by (induction js rule: rev_induct) (simp_all add: last_map)

lemma minus_days_nov4_29: "strftime_ymd (minus_days nov4 29) = ''2026-10-06''"
  unfolding nov4_def by code_simp

lemma calendar_ok_nov4: "calendar_ok nov4"
  by (simp add: calendar_ok_def nov4_def days_in_month_def)

text \<open>
  Claim C2, as stated, promises one record per region per day for the 30 trailing days,
  always. The generator reads the clock once in every iteration of its loop: when the
  clock passes midnight between the first and the second iteration, both iterations
  produce the same date, so two records share each region on that day and only 29 days
  are covered.
\<close>

theorem generate_sample_data_midnight_counterexample:
  "length (generate_sample_data midnight_clock (const_rng 0)) = 240 \<and>
   \<not> distinct (map key (generate_sample_data midnight_clock (const_rng 0)))"
  using midnight_not_distinct length_generate_sample_data by simp

text \<open>
  Claim C2, amended: whatever the clock and the random source, the generator returns
  exactly 240 records, 8 per iteration of its 30 iterations, one for each of the 8 fixed
  regions in their order, dated \<open>i\<close> days before the clock's reading in iteration \<open>i\<close>.
  When the clock reads the same day in every iteration, these are one record per region
  per day: no two records share date and region, and the 30 dates are printed differently
  and are the 30 consecutive days that end on that day.
\<close>

theorem generate_sample_data_240:
  "length (generate_sample_data now g) = 240 \<and>
   length regions = 8 \<and> distinct regions \<and>
   map key (generate_sample_data now g) =
     concat (map (\<lambda>i. map (Pair (strftime_ymd (minus_days (now i) i))) regions) [0..<30]) \<and>
   ((\<forall>i<30. now i = today) \<and> calendar_ok today \<and> 1 \<le> year today \<longrightarrow>
      distinct (map key (generate_sample_data now g)) \<and>
      distinct (map (\<lambda>i. strftime_ymd (minus_days today i)) [0..<30]) \<and>
      minus_days today 0 = today \<and>
      (\<forall>i. next_day (minus_days today (Suc i)) = minus_days today i))"
proof -
  have "distinct (map key (generate_sample_data now g)) \<and>
      distinct (map (\<lambda>i. strftime_ymd (minus_days today i)) [0..<30]) \<and>
      minus_days today 0 = today \<and>
      (\<forall>i. next_day (minus_days today (Suc i)) = minus_days today i)"
    if fixed: "\<forall>i<30. now i = today" and ok: "calendar_ok today" and yr: "1 \<le> year today"
  proof -
    from fixed yr have "distinct (map key (generate_sample_data now g))"
      by (rule fixed_clock_distinct)
    moreover from yr have "distinct (map (\<lambda>i. strftime_ymd (minus_days today i)) [0..<30])"
      by (rule window_dates_distinct)
    moreover from ok have "\<forall>i. next_day (minus_days today (Suc i)) = minus_days today i"
      by (simp only: next_minus_days simp_thms)
    ultimately show ?thesis by simp
  qed
  then have fixed_day: "(\<forall>i<30. now i = today) \<and> calendar_ok today \<and> 1 \<le> year today \<longrightarrow>
      distinct (map key (generate_sample_data now g)) \<and>
      distinct (map (\<lambda>i. strftime_ymd (minus_days today i)) [0..<30]) \<and>
      minus_days today 0 = today \<and>
      (\<forall>i. next_day (minus_days today (Suc i)) = minus_days today i)"
    by blast
  from length_generate_sample_data [of now g] length_regions distinct_regions
    generate_sample_data_keys [of now g] fixed_day
  show ?thesis by (intro conjI)
qed

theorem generate_sample_data_240_witness:
  "length (generate_sample_data (fixed_clock nov4) (const_rng (1 / 2))) = 240 \<and>
   key (hd (generate_sample_data (fixed_clock nov4) (const_rng (1 / 2)))) =
     (''2026-11-04'', ''New York'') \<and>
   key (last (generate_sample_data (fixed_clock nov4) (const_rng (1 / 2)))) =
     (''2026-10-06'', ''Singapore'') \<and>
   distinct (map key (generate_sample_data (fixed_clock nov4) (const_rng (1 / 2)))) \<and>
   next_day (minus_days nov4 1) = nov4"
proof -
  let ?data = "generate_sample_data (fixed_clock nov4) (const_rng (1 / 2))"
  let ?D = "\<lambda>i. strftime_ymd (minus_days (fixed_clock nov4 i) i)"
  note inst = generate_sample_data_240 [of "fixed_clock nov4" "const_rng (1 / 2)" nov4]
  from inst have len: "length ?data = 240" by blast
  then have ne: "?data \<noteq> []" by auto
  from inst have keys: "map key ?data = concat (map (\<lambda>i. map (Pair (?D i)) regions) [0..<30])"
    by blast
  have js: "[0..<30::nat] \<noteq> []" "hd [0..<30::nat] = 0" "last [0..<30::nat] = 29"
    by (simp_all add: hd_upt last_upt del: upt_rec_numeral)
  have regs: "regions \<noteq> []" "hd regions = ''New York''" "last regions = ''Singapore''"
    by (simp_all add: regions_def)
  have "key (hd ?data) = hd (map key ?data)" using ne by (simp add: hd_map)
  also have "\<dots> = (?D 0, ''New York'')"
    unfolding keys using hd_concat_blocks [OF js(1) regs(1), of ?D] by (simp only: js regs)
  also have "?D 0 = ''2026-11-04''" by (simp add: fixed_clock_def strftime_nov4)
  finally have first: "key (hd ?data) = (''2026-11-04'', ''New York'')" .
  have "key (last ?data) = last (map key ?data)" using ne by (simp add: last_map)
  also have "\<dots> = (?D 29, ''Singapore'')"
    unfolding keys using last_concat_blocks [OF js(1) regs(1), of ?D] by (simp only: js regs)
  also have "?D 29 = ''2026-10-06''" by (simp only: fixed_clock_def minus_days_nov4_29)
  finally have lst: "key (last ?data) = (''2026-10-06'', ''Singapore'')" .
  from inst fixed_clock_fixed [of nov4] calendar_ok_nov4 year_nov4
  have "distinct (map key ?data)" and "\<forall>i. next_day (minus_days nov4 (Suc i)) = minus_days nov4 i"
    by blast+
  then have "distinct (map key ?data)" and "next_day (minus_days nov4 (Suc 0)) = minus_days nov4 0"
    by blast+
  with len first lst show ?thesis by simp
qed

text \<open>
  Claim C3: when the random source yields values of \<open>[0, 1)\<close>, every generated record
  has its temperature in \<open>[15, 35]\<close>, its humidity an integer of \<open>[30, 90]\<close>, its wind
  speed in \<open>[0, 30]\<close>, its air quality index an integer of \<open>[20, 150]\<close> and its
  precipitation in \<open>[0, 100]\<close>; rounding, to an integer or to \<open>n\<close> decimals, keeps a
  value between any two integer bounds it lies between.
\<close>

theorem generate_sample_data_ranges:
  "rng_ok g \<Longrightarrow>
   (\<forall>r \<in> set (generate_sample_data now g).
      15 \<le> temperature r \<and> temperature r \<le> 35 \<and>
      30 \<le> humidity r \<and> humidity r \<le> 90 \<and>
      0 \<le> wind_speed r \<and> wind_speed r \<le> 30 \<and>
      20 \<le> air_quality_index r \<and> air_quality_index r \<le> 150 \<and>
      0 \<le> precipitation r \<and> precipitation r \<le> 100) \<and>
   (\<forall>x a b n. of_int a \<le> x \<and> x \<le> of_int b \<longrightarrow>
      a \<le> py_round x \<and> py_round x \<le> b \<and>
      of_int a \<le> py_round_ndigits x n \<and> py_round_ndigits x n \<le> of_int b)"
proof -
  assume "rng_ok g"
  then have "list_all in_range (generate_sample_data now g)"
    by (rule generate_sample_data_in_range)
  then have "\<forall>r \<in> set (generate_sample_data now g). in_range r"
    by (simp add: list_all_iff)
  then show ?thesis
    unfolding in_range_def
    using py_round_ge py_round_le py_round_ndigits_bounds by blast
qed

theorem generate_sample_data_ranges_witness:
  "rng_ok (const_rng (1 / 2)) \<and>
   in_range (hd (generate_sample_data (fixed_clock nov4) (const_rng (1 / 2)))) \<and>
   py_round (61 / 2) = 30 \<and> py_round_ndigits (3495 / 100) 1 = 35"
proof -
  have "generate_sample_data (fixed_clock nov4) (const_rng (1 / 2)) \<noteq> []"
    using length_generate_sample_data [of "fixed_clock nov4" "const_rng (1 / 2)"] by auto
  then have "hd (generate_sample_data (fixed_clock nov4) (const_rng (1 / 2)))
      \<in> set (generate_sample_data (fixed_clock nov4) (const_rng (1 / 2)))"
    by (rule hd_in_set)
  with generate_sample_data_ranges [OF rng_ok_half, of "fixed_clock nov4"]
  have "in_range (hd (generate_sample_data (fixed_clock nov4) (const_rng (1 / 2))))"
    unfolding in_range_def by blast
  moreover have "py_round (61 / 2) = 30" "py_round_ndigits (3495 / 100) 1 = 35"
    by (simp_all add: py_round_def py_round_ndigits_def)
  ultimately show ?thesis using rng_ok_half by simp
qed

text \<open>
  Claim C9: when the clock reads the same day, of year 1 or later, in every iteration of
  the generator's loop, no two generated records share date and region: each record is
  the only one of the collection with its date and its region.
\<close>

theorem generate_sample_data_unique_key:
  "\<forall>i<30. now i = today \<Longrightarrow> 1 \<le> year today \<Longrightarrow>
   distinct (map key (generate_sample_data now g)) \<and>
   (\<forall>r \<in> set (generate_sample_data now g).
      length (filter (\<lambda>r'. date r' = date r \<and> region r' = region r)
        (generate_sample_data now g)) = 1)"
proof -
  assume fixed: "\<forall>i<30. now i = today" and yr: "1 \<le> year today"
  then have dist: "distinct (map key (generate_sample_data now g))"
    by (rule fixed_clock_distinct)
  have "length (filter (\<lambda>r'. date r' = date r \<and> region r' = region r)
      (generate_sample_data now g)) = 1"
    if "r \<in> set (generate_sample_data now g)" for r
    using distinct_key_unique [OF dist that] by (simp add: key_def)
  with dist show ?thesis by blast
qed

theorem generate_sample_data_unique_key_witness:
  "distinct (map key (generate_sample_data (fixed_clock nov4) (const_rng (1 / 2)))) \<and>
   length (filter (\<lambda>r'. date r' = date (hd (generate_sample_data (fixed_clock nov4) (const_rng (1 / 2)))) \<and>
                        region r' = region (hd (generate_sample_data (fixed_clock nov4) (const_rng (1 / 2)))))
      (generate_sample_data (fixed_clock nov4) (const_rng (1 / 2)))) = 1"
proof -
  have "generate_sample_data (fixed_clock nov4) (const_rng (1 / 2)) \<noteq> []"
    using length_generate_sample_data [of "fixed_clock nov4" "const_rng (1 / 2)"] by auto
  then have "hd (generate_sample_data (fixed_clock nov4) (const_rng (1 / 2)))
      \<in> set (generate_sample_data (fixed_clock nov4) (const_rng (1 / 2)))"
    by (rule hd_in_set)
  with generate_sample_data_unique_key
    [of "fixed_clock nov4" nov4 "const_rng (1 / 2)", OF fixed_clock_fixed year_nov4]
  show ?thesis by blast
qed

section \<open>Empty results\<close>

text \<open>
  Claim C5: for every collection the generator call returns, and every selected date and
  region such that no record matches the filter, loading returns the empty frame together
  with the warning, and nothing else: the result is a value, not an exception, and the
  dashboard then shows no cards.
\<close>

theorem load_weather_data_no_match:
  "\<forall>r \<in> set data. \<not> (date r = strftime_ymd d \<and> (sel \<noteq> ''All Regions'' \<longrightarrow> region r = sel)) \<Longrightarrow>
   load_weather_data (Inr data) d sel =
     ([StWarning ''No data found for the selected filters.''], []) \<and>
   create_dashboard series_mean (Inr data) d sel =
     ([StWarning ''No data found for the selected filters.''], None)"
proof -
  assume "\<forall>r \<in> set data. \<not> (date r = strftime_ymd d \<and> (sel \<noteq> ''All Regions'' \<longrightarrow> region r = sel))"
  then have "filter (\<lambda>r. date r = strftime_ymd d \<and>
      (sel \<noteq> ''All Regions'' \<longrightarrow> region r = sel)) data = []"
    by (simp add: filter_empty_conv)
  then have "load_weather_data (Inr data) d sel =
      ([StWarning ''No data found for the selected filters.''], [])"
    by (simp add: load_weather_data_Inr)
  then show ?thesis by (simp add: create_dashboard_def)
qed

theorem load_weather_data_no_match_witness:
  "load_weather_data (Inr sample_day) nov3 ''London'' =
     ([StWarning ''No data found for the selected filters.''], []) \<and>
   create_dashboard arithmetic_mean (Inr sample_day) nov3 ''London'' =
     ([StWarning ''No data found for the selected filters.''], None)"
proof -
  have "\<forall>r \<in> set sample_day.
      \<not> (date r = strftime_ymd nov3 \<and> (''London'' \<noteq> ''All Regions'' \<longrightarrow> region r = ''London''))"
    by (simp add: strftime_nov3 sample_day_def sample_record_def)
  then show ?thesis by (rule load_weather_data_no_match)
qed

section \<open>The error boundary\<close>

lemma comprehension_to_dict_date:
  "comprehension (field_equals ''date'' s) (map to_dict data) =
     Inr (map to_dict (filter (\<lambda>r. date r = s) data))"
  by (induction data) (simp_all add: field_equals_def subscript_def to_dict_def)

lemma comprehension_to_dict_region:
  "comprehension (field_equals ''region'' s) (map to_dict data) =
     Inr (map to_dict (filter (\<lambda>r. region r = s) data))"
  by (induction data) (simp_all add: field_equals_def subscript_def to_dict_def)

lemma load_body_py_typed:
  "load_body_py (Inr (map to_dict data)) d sel =
     map_sum id (map_prod id (map to_dict)) (load_body (Inr data) d sel)"
  by (simp add: load_body_py_def load_body_def comprehension_to_dict_date
      comprehension_to_dict_region Let_def)

lemma load_weather_data_py_typed:
  "load_weather_data_py (Inr (map to_dict data)) d sel =
     Inr (map_prod id (map to_dict) (load_weather_data (Inr data) d sel))"
  by (simp add: load_weather_data_py_def try_except_def load_body_py_typed
      load_weather_data_def load_body_def Let_def)

lemma comprehension_missing_key:
  "\<exists>row \<in> set data. map_of row k = None \<Longrightarrow>
   comprehension (field_equals k s) data = Inl (PyException (quote k))"
proof (induction data)
  case Nil
  then show ?case by simp
next
  case (Cons row data)
  show ?case
  proof (cases "map_of row k")
    case None
    then show ?thesis by (simp add: field_equals_def subscript_def)
  next
    case (Some v)
    with Cons.prems have "\<exists>row \<in> set data. map_of row k = None" by auto
    with Cons.IH Some show ?thesis by (simp add: field_equals_def subscript_def)
  qed
qed

lemma load_body_py_missing_date:
  "\<exists>row \<in> set data. map_of row ''date'' = None \<Longrightarrow>
   load_body_py (Inr data) d sel = Inl (PyException (quote ''date''))"
  by (simp add: load_body_py_def comprehension_missing_key)

lemma load_weather_data_py_returns:
  "\<exists>msgs df. load_weather_data_py generated d sel = Inr (msgs, df)"
proof (cases "load_body_py generated d sel")
  case (Inl e)
  then show ?thesis by (simp add: load_weather_data_py_def try_except_def)
next
  case (Inr res)
  then show ?thesis by (cases res) (simp add: load_weather_data_py_def try_except_def)
qed

lemma comprehension_all_keys:
  "\<forall>row \<in> set data. map_of row k \<noteq> None \<Longrightarrow>
   comprehension (field_equals k s) data =
     Inr (filter (\<lambda>row. map_of row k = Some (PyStr s)) data)"
  by (induction data) (auto simp: field_equals_def subscript_def)

lemma load_body_py_missing_region:
  assumes "\<forall>row \<in> set data. map_of row ''date'' \<noteq> None"
    and "sel \<noteq> ''All Regions''"
    and "\<exists>row \<in> set data.
      map_of row ''date'' = Some (PyStr (strftime_ymd d)) \<and> map_of row ''region'' = None"
  shows "load_body_py (Inr data) d sel = Inl (PyException (quote ''region''))"
proof -
  let ?fd = "filter (\<lambda>row. map_of row ''date'' = Some (PyStr (strftime_ymd d))) data"
  from assms(3) have "\<exists>row \<in> set ?fd. map_of row ''region'' = None" by auto
  then have "comprehension (field_equals ''region'' sel) ?fd = Inl (PyException (quote ''region''))"
    by (rule comprehension_missing_key)
  with assms(2) show ?thesis
    by (simp add: load_body_py_def comprehension_all_keys [OF assms(1)])
qed

text \<open>
  Claim C7: whatever the call of the generator does inside the \<^verbatim>\<open>try\<close> block and
  whatever the records are, no exception leaves \<^verbatim>\<open>load_weather_data\<close>: it returns
  messages and a frame. When the block raises \<open>e\<close>, the handler shows the one error
  message built from \<open>e\<close> and returns the empty frame. The block raises when the
  generator call raises (loading), when a record lacks the key \<^verbatim>\<open>date\<close>, and when
  a region is selected and a record of the selected date lacks the key \<^verbatim>\<open>region\<close>
  (filtering), with the \<^verbatim>\<open>KeyError\<close> of that key. On the dictionaries of typed rows
  nothing raises and the function is the typed filter.
\<close>

theorem load_weather_data_error_boundary:
  "(\<exists>msgs df. load_weather_data_py generated d sel = Inr (msgs, df)) \<and>
   (\<forall>e. load_body_py generated d sel = Inl e \<longrightarrow>
      load_weather_data_py generated d sel =
        Inr ([StError (''An error occurred: '' @ str e)], [])) \<and>
   (\<forall>e. generated = Inl e \<longrightarrow> load_body_py generated d sel = Inl e) \<and>
   (\<forall>data. generated = Inr data \<and> (\<exists>row \<in> set data. map_of row ''date'' = None) \<longrightarrow>
      load_body_py generated d sel = Inl (PyException (quote ''date'')) \<and>
      load_weather_data_py generated d sel =
        Inr ([StError (''An error occurred: '' @ quote ''date'')], [])) \<and>
   (\<forall>data. generated = Inr data \<and> (\<forall>row \<in> set data. map_of row ''date'' \<noteq> None) \<and>
      sel \<noteq> ''All Regions'' \<and>
      (\<exists>row \<in> set data. map_of row ''date'' = Some (PyStr (strftime_ymd d)) \<and>
         map_of row ''region'' = None) \<longrightarrow>
      load_body_py generated d sel = Inl (PyException (quote ''region'')) \<and>
      load_weather_data_py generated d sel =
        Inr ([StError (''An error occurred: '' @ quote ''region'')], [])) \<and>
   (\<forall>data. generated = Inr (map to_dict data) \<longrightarrow>
      load_weather_data_py generated d sel =
        Inr (map_prod id (map to_dict) (load_weather_data (Inr data) d sel)))"
proof -
  have "load_weather_data_py generated d sel =
      Inr ([StError (''An error occurred: '' @ str e)], [])"
    if "load_body_py generated d sel = Inl e" for e
    using that by (simp add: load_weather_data_py_def try_except_def)
  moreover have "load_body_py generated d sel = Inl e" if "generated = Inl e" for e
    using that by (simp add: load_body_py_def)
  moreover have "load_body_py generated d sel = Inl (PyException (quote ''date'')) \<and>
      load_weather_data_py generated d sel =
        Inr ([StError (''An error occurred: '' @ quote ''date'')], [])"
    if "generated = Inr data \<and> (\<exists>row \<in> set data. map_of row ''date'' = None)" for data
    using that load_body_py_missing_date [of data d sel]
    by (simp add: load_weather_data_py_def try_except_def)
  moreover have "load_body_py generated d sel = Inl (PyException (quote ''region'')) \<and>
      load_weather_data_py generated d sel =
        Inr ([StError (''An error occurred: '' @ quote ''region'')], [])"
    if "generated = Inr data \<and> (\<forall>row \<in> set data. map_of row ''date'' \<noteq> None) \<and>
      sel \<noteq> ''All Regions'' \<and>
      (\<exists>row \<in> set data. map_of row ''date'' = Some (PyStr (strftime_ymd d)) \<and>
         map_of row ''region'' = None)" for data
    using that load_body_py_missing_region [of data sel d]
    by (simp add: load_weather_data_py_def try_except_def)
  moreover have "load_weather_data_py generated d sel =
      Inr (map_prod id (map to_dict) (load_weather_data (Inr data) d sel))"
    if "generated = Inr (map to_dict data)" for data
    using that by (simp only: load_weather_data_py_typed)
  ultimately show ?thesis
    using load_weather_data_py_returns [of generated d sel] by blast
qed

theorem load_weather_data_error_boundary_witness:
  "load_body_py (Inr (to_dict (sample_record ''Paris'' 20 50) # keyless_row # [])) nov4 ''London'' =
     Inl (PyException (quote ''date'')) \<and>
   load_weather_data_py (Inr (to_dict (sample_record ''Paris'' 20 50) # keyless_row # []))
     nov4 ''London'' =
     Inr ([StError (''An error occurred: '' @ quote ''date'')], []) \<and>
   load_weather_data_py (Inl (PyException ''date value out of range'')) nov4 ''London'' =
     Inr ([StError ''An error occurred: date value out of range''], [])"
proof -
  let ?data = "to_dict (sample_record ''Paris'' 20 50) # keyless_row # []"
  have "\<exists>row \<in> set ?data. map_of row ''date'' = None"
    by (simp add: keyless_row_def)
  with load_weather_data_error_boundary [of "Inr ?data" nov4 "''London''"]
  have body: "load_body_py (Inr ?data) nov4 ''London'' = Inl (PyException (quote ''date''))"
    and 1: "load_weather_data_py (Inr ?data) nov4 ''London'' =
      Inr ([StError (''An error occurred: '' @ quote ''date'')], [])"
    by blast+
  have "load_body_py (Inl (PyException ''date value out of range'')) nov4 ''London'' =
      Inl (PyException ''date value out of range'')"
    using load_weather_data_error_boundary
      [of "Inl (PyException ''date value out of range'')" nov4 "''London''"] by blast
  with load_weather_data_error_boundary
    [of "Inl (PyException ''date value out of range'')" nov4 "''London''"]
  have 2: "load_weather_data_py (Inl (PyException ''date value out of range'')) nov4 ''London'' =
      Inr ([StError ''An error occurred: date value out of range''], [])"
    by simp
  from body 1 2 show ?thesis by simp
qed

section \<open>The cache\<close>

lemma invocations_filled:
  "invocations (Some data) calls = replicate (length calls) data"
  by (induction calls) (auto simp: cached_generate_sample_data_def)

lemma invocations_replicate:
  "\<exists>data. invocations cache calls = replicate (length calls) data"
proof (cases calls)
  case Nil
  then show ?thesis by simp
next
  case (Cons c rest)
  obtain now g where c: "c = (now, g)" by (cases c)
  show ?thesis
  proof (cases cache)
    case None
    with Cons c have "invocations cache calls =
        replicate (length calls) (generate_sample_data now g)"
      by (simp add: cached_generate_sample_data_def invocations_filled Let_def)
    then show ?thesis by blast
  next
    case (Some data)
    then show ?thesis using invocations_filled [of data calls] by blast
  qed
qed

text \<open>
  Claim C8: within one process, whose cache starts in any state, any two invocations of
  the cached generator return the same list of records, whatever the clock and the random
  source are at the time of each invocation; the first invocation on an empty cache
  returns what the generator computes then.
\<close>

theorem invocations_same:
  "length (invocations cache calls) = length calls \<and>
   (i < length calls \<and> j < length calls \<longrightarrow>
      invocations cache calls ! i = invocations cache calls ! j) \<and>
   fst (cached_generate_sample_data None now g) = generate_sample_data now g"
proof -
  obtain data where "invocations cache calls = replicate (length calls) data"
    using invocations_replicate by blast
  then show ?thesis by (simp add: cached_generate_sample_data_def Let_def)
qed

theorem invocations_same_witness:
  "invocations None [(fixed_clock nov3, const_rng 0), (fixed_clock nov4, const_rng (1 / 2))] ! 1 =
   invocations None [(fixed_clock nov3, const_rng 0), (fixed_clock nov4, const_rng (1 / 2))] ! 0"
  using invocations_same
    [of None "[(fixed_clock nov3, const_rng 0), (fixed_clock nov4, const_rng (1 / 2))]" 1 0]
  by simp

section \<open>The numbers on the cards\<close>

lemma py_round_near: "\<bar>of_int (py_round x) - x\<bar> \<le> 1 / 2"
proof -
  have "of_int \<lfloor>x\<rfloor> \<le> x" "x < of_int \<lfloor>x\<rfloor> + 1" by linarith+
  then show ?thesis
    by (auto simp: py_round_def Let_def abs_le_iff)
qed

lemma format_1f_near: "\<bar>format_1f x - x\<bar> \<le> 1 / 20"
proof -
  have "\<bar>of_int (py_round (x * 10)) - x * 10\<bar> \<le> 1 / 2" by (rule py_round_near)
  then have "\<bar>(of_int (py_round (x * 10)) - x * 10) / 10\<bar> \<le> (1 / 2) / 10"
    by (simp only: abs_divide) simp
  then show ?thesis by (simp add: format_1f_def py_round_ndigits_def diff_divide_distrib)
qed

lemma one_decimal_format_1f: "one_decimal (format_1f x)"
  by (simp add: one_decimal_def format_1f_def py_round_ndigits_def)

lemma card_near:
  assumes "mean_contract series_mean err" "xs \<noteq> []"
  shows "\<bar>format_1f (series_mean xs) - arithmetic_mean xs\<bar> \<le> 1 / 20 + err"
proof -
  from assms have "\<bar>series_mean xs - arithmetic_mean xs\<bar> \<le> err"
    by (simp add: mean_contract_def)
  with format_1f_near [of "series_mean xs"] show ?thesis by linarith
qed

lemma mean_contract_exact: "mean_contract arithmetic_mean 0"
  by (simp add: mean_contract_def arithmetic_mean_def)

lemma create_dashboard_nonempty:
  "load_weather_data generated d sel = (msgs, df) \<Longrightarrow> df \<noteq> [] \<Longrightarrow>
   create_dashboard series_mean generated d sel =
     (msgs, Some \<lparr>
        avg_temperature = format_1f (series_mean (map temperature df)),
        avg_humidity = format_1f (series_mean (map (\<lambda>r. of_int (humidity r)) df)),
        avg_wind_speed = format_1f (series_mean (map wind_speed df)),
        avg_aqi = format_1f (series_mean (map (\<lambda>r. of_int (air_quality_index r)) df))\<rparr>)"
  by (simp add: create_dashboard_def)

lemma create_dashboard_single:
  "mean_contract series_mean err \<Longrightarrow>
   load_weather_data generated d sel = (msgs, [r]) \<Longrightarrow>
   one_decimal (temperature r) \<Longrightarrow> one_decimal (wind_speed r) \<Longrightarrow>
   create_dashboard series_mean generated d sel =
     (msgs, Some \<lparr>
        avg_temperature = temperature r,
        avg_humidity = of_int (humidity r),
        avg_wind_speed = wind_speed r,
        avg_aqi = of_int (air_quality_index r)\<rparr>)"
  by (simp add: create_dashboard_def mean_contract_def format_1f_one_decimal format_1f_of_int)

lemma load_weather_data_subset:
  "load_weather_data (Inr data) d sel = (msgs, df) \<Longrightarrow> set df \<subseteq> set data"
  using load_weather_data_rows [of data d sel] by auto

lemma sample_day_all_regions:
  "load_weather_data (Inr sample_day) nov4 ''All Regions'' = ([], sample_day)"
  by (simp add: load_weather_data_Inr strftime_nov4 sample_day_def sample_record_def)

lemma sample_day_london:
  "load_weather_data (Inr sample_day) nov4 ''London'' =
     ([], [sample_record ''London'' (243 / 10) 30])"
  by (simp add: load_weather_data_Inr strftime_nov4 sample_day_def sample_record_def)

text \<open>
  Claim C4, as stated, says that each displayed aggregate equals the arithmetic mean. The
  cards print the mean with the format \<^verbatim>\<open>:.1f\<close>. The eight records of the sample day
  have the humidities 30, seven times, and 31, once: their sum 241 and their mean 30.125
  are doubles, so the computed mean is the arithmetic mean, and the card shows 30.1.
\<close>

theorem create_dashboard_humidity_counterexample:
  "map_option avg_humidity
     (snd (create_dashboard arithmetic_mean (Inr sample_day) nov4 ''All Regions'')) =
     Some (301 / 10) \<and>
   arithmetic_mean (map (\<lambda>r. of_int (humidity r))
     (snd (load_weather_data (Inr sample_day) nov4 ''All Regions''))) = 241 / 8"
proof -
  have m: "arithmetic_mean (map (\<lambda>r. of_int (humidity r)) sample_day) = 241 / 8"
    by (simp add: arithmetic_mean_def sample_day_def sample_record_def)
  have f: "format_1f (241 / 8) = 301 / 10"
    by (simp add: format_1f_def py_round_ndigits_def py_round_def)
  have ne: "sample_day \<noteq> []" by (simp add: sample_day_def)
  have shown: "map_option avg_humidity
      (snd (create_dashboard arithmetic_mean (Inr sample_day) nov4 ''All Regions'')) =
      Some (format_1f (arithmetic_mean (map (\<lambda>r. of_int (humidity r)) sample_day)))"
    by (simp add: create_dashboard_nonempty [OF sample_day_all_regions ne])
  have rows: "snd (load_weather_data (Inr sample_day) nov4 ''All Regions'') = sample_day"
    by (simp add: sample_day_all_regions)
  show ?thesis unfolding shown rows m f by simp
qed

text \<open>
  Claim C4, amended: for every non-empty filtered collection, each of the four cards
  (temperature, humidity, wind speed, air quality index) shows a number with one decimal
  place that differs from the arithmetic mean of that field over the filtered records by
  at most 0.05 plus the rounding error of the computed mean. When the filter yields a
  single record whose temperature and wind speed have at most one decimal place, each
  card equals that record's field value exactly; the records of the generator are such
  records.
\<close>

theorem create_dashboard_cards:
  "mean_contract series_mean err \<Longrightarrow>
   load_weather_data generated d sel = (msgs, df) \<Longrightarrow> df \<noteq> [] \<Longrightarrow>
   (\<exists>cards. create_dashboard series_mean generated d sel = (msgs, Some cards) \<and>
      one_decimal (avg_temperature cards) \<and> one_decimal (avg_humidity cards) \<and>
      one_decimal (avg_wind_speed cards) \<and> one_decimal (avg_aqi cards) \<and>
      \<bar>avg_temperature cards - arithmetic_mean (map temperature df)\<bar> \<le> 1 / 20 + err \<and>
      \<bar>avg_humidity cards - arithmetic_mean (map (\<lambda>r. of_int (humidity r)) df)\<bar>
        \<le> 1 / 20 + err \<and>
      \<bar>avg_wind_speed cards - arithmetic_mean (map wind_speed df)\<bar> \<le> 1 / 20 + err \<and>
      \<bar>avg_aqi cards - arithmetic_mean (map (\<lambda>r. of_int (air_quality_index r)) df)\<bar>
        \<le> 1 / 20 + err) \<and>
   (\<forall>r. df = [r] \<and>
      ((one_decimal (temperature r) \<and> one_decimal (wind_speed r)) \<or>
       (\<exists>now g. generated = Inr (generate_sample_data now g))) \<longrightarrow>
      create_dashboard series_mean generated d sel =
        (msgs, Some \<lparr>
           avg_temperature = temperature r,
           avg_humidity = of_int (humidity r),
           avg_wind_speed = wind_speed r,
           avg_aqi = of_int (air_quality_index r)\<rparr>))"
proof -
  assume contract: "mean_contract series_mean err"
    and load: "load_weather_data generated d sel = (msgs, df)" and ne: "df \<noteq> []"
  let ?cards = "\<lparr>
      avg_temperature = format_1f (series_mean (map temperature df)),
      avg_humidity = format_1f (series_mean (map (\<lambda>r. of_int (humidity r)) df)),
      avg_wind_speed = format_1f (series_mean (map wind_speed df)),
      avg_aqi = format_1f (series_mean (map (\<lambda>r. of_int (air_quality_index r)) df))\<rparr>"
  have shown: "create_dashboard series_mean generated d sel = (msgs, Some ?cards)"
    using load ne by (rule create_dashboard_nonempty)
  have near: "\<bar>format_1f (series_mean (map f df)) - arithmetic_mean (map f df)\<bar> \<le> 1 / 20 + err"
    for f :: "weather_record \<Rightarrow> real"
    using contract ne by (intro card_near) simp_all
  have general: "\<exists>cards. create_dashboard series_mean generated d sel = (msgs, Some cards) \<and>
      one_decimal (avg_temperature cards) \<and> one_decimal (avg_humidity cards) \<and>
      one_decimal (avg_wind_speed cards) \<and> one_decimal (avg_aqi cards) \<and>
      \<bar>avg_temperature cards - arithmetic_mean (map temperature df)\<bar> \<le> 1 / 20 + err \<and>
      \<bar>avg_humidity cards - arithmetic_mean (map (\<lambda>r. of_int (humidity r)) df)\<bar>
        \<le> 1 / 20 + err \<and>
      \<bar>avg_wind_speed cards - arithmetic_mean (map wind_speed df)\<bar> \<le> 1 / 20 + err \<and>
      \<bar>avg_aqi cards - arithmetic_mean (map (\<lambda>r. of_int (air_quality_index r)) df)\<bar>
        \<le> 1 / 20 + err"
    using shown near [of temperature] near [of "\<lambda>r. of_int (humidity r)"] near [of wind_speed]
      near [of "\<lambda>r. of_int (air_quality_index r)"]
    by (intro exI [of _ ?cards]) (simp add: one_decimal_format_1f)
  have single: "create_dashboard series_mean generated d sel =
        (msgs, Some \<lparr>avg_temperature = temperature r, avg_humidity = of_int (humidity r),
           avg_wind_speed = wind_speed r, avg_aqi = of_int (air_quality_index r)\<rparr>)"
    if df: "df = [r]"
      and r: "(one_decimal (temperature r) \<and> one_decimal (wind_speed r)) \<or>
        (\<exists>now g. generated = Inr (generate_sample_data now g))"
    for r
  proof -
    have "one_decimal (temperature r) \<and> one_decimal (wind_speed r)"
      using r
    proof
      assume "one_decimal (temperature r) \<and> one_decimal (wind_speed r)"
      then show ?thesis .
    next
      assume "\<exists>now g. generated = Inr (generate_sample_data now g)"
      then obtain now g where gen: "generated = Inr (generate_sample_data now g)" by blast
      with load df have "r \<in> set (generate_sample_data now g)"
        using load_weather_data_subset [of "generate_sample_data now g" d sel msgs df] by simp
      with generate_sample_data_one_decimal [of now g] show ?thesis
        by (simp add: list_all_iff)
    qed
    with contract load df show ?thesis by (simp add: create_dashboard_single)
  qed
  from general single show ?thesis by blast
qed

theorem create_dashboard_cards_witness:
  "mean_contract arithmetic_mean 0 \<and>
   create_dashboard arithmetic_mean (Inr sample_day) nov4 ''London'' =
     ([], Some \<lparr>avg_temperature = 243 / 10, avg_humidity = 30, avg_wind_speed = 25 / 2,
        avg_aqi = 80\<rparr>)"
proof -
  have "one_decimal (temperature (sample_record ''London'' (243 / 10) 30)) \<and>
      one_decimal (wind_speed (sample_record ''London'' (243 / 10) 30))"
    by (simp add: one_decimal_def sample_record_def)
  with create_dashboard_cards [OF mean_contract_exact sample_day_london]
  have "create_dashboard arithmetic_mean (Inr sample_day) nov4 ''London'' =
      (([]::st_message list), Some \<lparr>
         avg_temperature = temperature (sample_record ''London'' (243 / 10) 30),
         avg_humidity = of_int (humidity (sample_record ''London'' (243 / 10) 30)),
         avg_wind_speed = wind_speed (sample_record ''London'' (243 / 10) 30),
         avg_aqi = of_int (air_quality_index (sample_record ''London'' (243 / 10) 30))\<rparr>)"
    by blast
  then show ?thesis using mean_contract_exact by (simp add: sample_record_def)
qed

section \<open>The earliest selectable date\<close>

lemma minus_days_nov3_29: "strftime_ymd (minus_days nov3 29) = ''2026-10-05''"
  unfolding nov3_def by code_simp

lemma date_input_min_nov4: "strftime_ymd (date_input_min nov4) = ''2026-10-05''"
  unfolding nov4_def date_input_min_def by code_simp

lemma key_in_generated:
  "k \<in> set (map key (generate_sample_data now g)) \<Longrightarrow>
   \<exists>r \<in> set (generate_sample_data now g). date r = fst k \<and> region r = snd k"
  by (auto simp: key_def)

lemma pair_in_concat:
  "i \<in> set js \<Longrightarrow> reg \<in> set regs \<Longrightarrow>
   (D i, reg) \<in> set (concat (map (\<lambda>i. map (Pair (D i)) regs) js))"
  by auto

text \<open>
  Claim C10, as stated, says that the earliest selectable date always yields an empty
  result. The generated collection is cached from the first render of the process, while
  the date picker reads the clock at every render: with the data generated on 2026-11-03
  and the sidebar rendered on 2026-11-04, the earliest selectable date is 2026-10-05,
  which is the oldest day of the data, and the filter returns records.
\<close>

theorem earliest_date_counterexample:
  "snd (load_weather_data (Inr (generate_sample_data (fixed_clock nov3) (const_rng 0)))
     (date_input_min nov4) ''All Regions'') \<noteq> []"
proof -
  have "(29::nat) \<in> set [0..<30]" by simp
  moreover have "''New York'' \<in> set regions" by (simp add: regions_def)
  ultimately have "(strftime_ymd (minus_days nov3 29), ''New York'') \<in>
      set (concat (map (\<lambda>i. map (Pair (strftime_ymd (minus_days nov3 i))) regions) [0..<30]))"
    by (rule pair_in_concat)
  then have "(strftime_ymd (minus_days nov3 29), ''New York'') \<in>
      set (map key (generate_sample_data (fixed_clock nov3) (const_rng 0)))"
    by (simp only: fixed_clock_keys [OF fixed_clock_fixed])
  then have "(''2026-10-05'', ''New York'') \<in>
      set (map key (generate_sample_data (fixed_clock nov3) (const_rng 0)))"
    by (simp only: minus_days_nov3_29)
  from key_in_generated [OF this]
  obtain r where "r \<in> set (generate_sample_data (fixed_clock nov3) (const_rng 0))"
    and "date r = ''2026-10-05''" by (auto simp only: fst_conv)
  then have "filter (\<lambda>r. date r = ''2026-10-05'')
      (generate_sample_data (fixed_clock nov3) (const_rng 0)) \<noteq> []"
    unfolding filter_empty_conv by blast
  then show ?thesis
    by (simp add: load_weather_data_rows date_input_min_nov4)
qed

text \<open>
  Claim C10, amended: the date picker allows dates down to 30 days before the day it is
  rendered, and a collection generated on one day holds only the dates from that day back
  to 29 days before it. So when the collection was generated on the day the picker is
  rendered (a day of year 1 or later), selecting the earliest selectable date yields an
  empty result and the warning, for every region selection.
\<close>

theorem earliest_date_empty:
  "\<forall>i<30. now i = today \<Longrightarrow> 1 \<le> year today \<Longrightarrow>
   date_input_min today = minus_days today 30 \<and>
   (\<forall>r \<in> set (generate_sample_data now g).
      \<exists>i<30. date r = strftime_ymd (minus_days today i)) \<and>
   load_weather_data (Inr (generate_sample_data now g)) (date_input_min today) sel =
     ([StWarning ''No data found for the selected filters.''], [])"
proof -
  assume fixed: "\<forall>i<30. now i = today" and yr: "1 \<le> year today"
  have dates: "\<exists>i<30. date r = strftime_ymd (minus_days today i)"
    if "r \<in> set (generate_sample_data now g)" for r
    using fixed that by (rule fixed_clock_dates)
  have "date r \<noteq> strftime_ymd (minus_days today 30)"
    if r: "r \<in> set (generate_sample_data now g)" for r
  proof
    assume eq: "date r = strftime_ymd (minus_days today 30)"
    from dates [OF r] obtain i where i: "i < 30" "date r = strftime_ymd (minus_days today i)"
      by blast
    with eq have "strftime_ymd (minus_days today i) = strftime_ymd (minus_days today 30)"
      by simp
    with window_dates_inj [OF yr, of i 30] i(1) show False by simp
  qed
  then have "filter (\<lambda>r. date r = strftime_ymd (date_input_min today) \<and>
      (sel \<noteq> ''All Regions'' \<longrightarrow> region r = sel)) (generate_sample_data now g) = []"
    by (auto simp: filter_empty_conv date_input_min_def)
  then have "load_weather_data (Inr (generate_sample_data now g)) (date_input_min today) sel =
      ([StWarning ''No data found for the selected filters.''], [])"
    by (simp add: load_weather_data_Inr)
  with dates show ?thesis by (simp add: date_input_min_def)
qed

theorem earliest_date_empty_witness:
  "load_weather_data (Inr (generate_sample_data (fixed_clock nov4) (const_rng 0)))
     (date_input_min nov4) ''All Regions'' =
     ([StWarning ''No data found for the selected filters.''], [])"
  using earliest_date_empty
    [of "fixed_clock nov4" nov4 "const_rng 0" "''All Regions''", OF fixed_clock_fixed year_nov4]
  by blast

section \<open>The CSV round trip\<close>

lemma split_on_nonempty: "split_on c s \<noteq> []"
  by (induction s) (auto split: list.splits)

lemma split_on_plain: "c \<notin> set a \<Longrightarrow> split_on c a = [a]"
  by (induction a) auto

lemma split_on_append:
  "c \<notin> set a \<Longrightarrow> split_on c (a @ c # rest) = a # split_on c rest"
  by (induction a) (auto split: list.splits)

lemma digit_char_is_digit: "k < 10 \<Longrightarrow> digit_char k \<in> set ''0123456789''"
proof -
  assume "k < 10"
  then have "k \<in> {0, 1, 2, 3, 4, 5, 6, 7, 8, 9}" by auto
  then show ?thesis by (auto simp: digit_char_def)
qed

lemma digits_are_digits: "set (digits n) \<subseteq> set ''0123456789''"
proof (induction n rule: digits.induct)
  case (1 n)
  show ?case
  proof (cases "n < 10")
    case True
    then show ?thesis
      using digit_char_is_digit [of n] by (simp add: digits.simps [of n])
  next
    case False
    with 1 have "set (digits (n div 10)) \<subseteq> set ''0123456789''" by simp
    with False show ?thesis
      using digit_char_is_digit [of "n mod 10"] by (simp add: digits.simps [of n])
  qed
qed

lemma digits_nonempty: "digits n \<noteq> []"
proof (cases "n < 10")
  case True
  then show ?thesis by (simp add: digits.simps [of n])
next
  case False
  then show ?thesis by (simp add: digits.simps [of n])
qed

lemma all_digits_digits: "all_digits (digits n)"
  unfolding all_digits_def list_all_iff
  using digits_are_digits [of n] digits_nonempty [of n] by blast

lemma digits_free:
  "c \<notin> set ''0123456789'' \<Longrightarrow> c \<notin> set (digits n)"
  using digits_are_digits [of n] by blast

lemma parse_nat_digit: "k < 10 \<Longrightarrow> parse_nat [digit_char k] = k"
  by (simp add: parse_nat_def digit_value_digit_char)

lemma parse_nat_two_digits:
  "a < 10 \<Longrightarrow> b < 10 \<Longrightarrow> parse_nat [digit_char a, digit_char b] = 10 * a + b"
  by (simp add: parse_nat_def digit_value_digit_char)

lemma parse_int_str_int: "parse_int (str_int n) = Some n"
proof (cases "n < 0")
  case True
  then show ?thesis
    by (simp add: parse_int_def str_int_def all_digits_digits parse_nat_digits)
next
  case False
  obtain c ds where ds: "digits (nat n) = c # ds"
    using digits_nonempty [of "nat n"] by (cases "digits (nat n)") auto
  have "c \<noteq> CHR ''-''"
    using digits_free [of "CHR ''-''" "nat n"] ds by auto
  moreover have "all_digits (c # ds)" "parse_nat (c # ds) = nat n"
    using all_digits_digits [of "nat n"] parse_nat_digits [of "nat n"] ds by simp_all
  ultimately show ?thesis
    using False ds by (simp add: parse_int_def str_int_def)
qed

lemma parse_float_repr_float:
  assumes "two_decimals x"
  shows "parse_float (repr_float x) = Some x"
proof -
  define n where "n = nat \<lfloor>x * 100\<rfloor>"
  define ip where "ip = n div 100"
  define fp where "fp = n mod 100"
  define fdig where "fdig =
    (if fp mod 10 = 0 then [digit_char (fp div 10)]
     else [digit_char (fp div 10), digit_char (fp mod 10)])"
  have fp: "fp < 100" by (simp add: fp_def)
  then have hi: "fp div 10 < 10" and lo: "fp mod 10 < 10" by simp_all
  have x: "x = of_nat n / 100"
  proof -
    from assms have nonneg: "0 \<le> x" and fl: "of_int \<lfloor>x * 100\<rfloor> = x * 100"
      unfolding two_decimals_def by blast+
    from nonneg have "0 \<le> \<lfloor>x * 100\<rfloor>" by simp
    then have "of_nat n = (of_int \<lfloor>x * 100\<rfloor> :: real)" by (simp add: n_def)
    then have "of_nat n = x * 100" by (simp only: fl)
    then show ?thesis by simp
  qed
  have n: "n = 100 * ip + fp" by (simp add: ip_def fp_def)
  have repr: "repr_float x = digits ip @ CHR ''.'' # fdig"
    by (simp add: repr_float_def Let_def n_def ip_def fp_def fdig_def)
  have fdig_digits: "all_digits fdig"
    using digit_char_is_digit [OF hi] digit_char_is_digit [OF lo]
    by (simp add: fdig_def all_digits_def del: set_simps)
  have "CHR ''.'' \<notin> set ''0123456789''" by simp
  with digit_char_is_digit [OF hi] digit_char_is_digit [OF lo]
  have "digit_char (fp div 10) \<noteq> CHR ''.''" "digit_char (fp mod 10) \<noteq> CHR ''.''"
    by metis+
  then have fdig_free: "CHR ''.'' \<notin> set fdig" by (auto simp: fdig_def)
  have fdig_value: "of_nat (parse_nat fdig) / 10 ^ length fdig = (of_nat fp / 100 :: real)"
  proof (cases "fp mod 10 = 0")
    case True
    then have "fp = 10 * (fp div 10)" by presburger
    then have "(of_nat fp :: real) = 10 * of_nat (fp div 10)"
      by (metis of_nat_mult of_nat_numeral)
    with True show ?thesis by (simp add: fdig_def parse_nat_digit [OF hi])
  next
    case False
    have "fp = 10 * (fp div 10) + fp mod 10" by simp
    then have "(of_nat fp :: real) = 10 * of_nat (fp div 10) + of_nat (fp mod 10)"
      by (metis of_nat_add of_nat_mult of_nat_numeral)
    with False show ?thesis by (simp add: fdig_def parse_nat_two_digits [OF hi lo])
  qed
  have "split_on (CHR ''.'') (repr_float x) = [digits ip, fdig]"
    unfolding repr
    using split_on_append [of "CHR ''.''" "digits ip" fdig] split_on_plain [OF fdig_free]
      digits_free [of "CHR ''.''" ip]
    by simp
  then have "parse_float (repr_float x) =
      Some (of_nat (parse_nat (digits ip)) + of_nat (parse_nat fdig) / 10 ^ length fdig)"
    by (simp add: parse_float_def all_digits_digits fdig_digits)
  also have "\<dots> = Some (of_nat ip + of_nat fp / 100)"
    by (simp only: parse_nat_digits fdig_value)
  also have "of_nat ip + of_nat fp / 100 = x"
    unfolding x n by simp
  finally show ?thesis .
qed

lemma number_char_digit: "c \<in> set ''0123456789'' \<Longrightarrow> number_char c"
  by (auto simp: number_char_def)

lemma number_char_marks: "number_char (CHR ''.'')" "number_char (CHR ''-'')"
  by (simp_all add: number_char_def)

lemma not_number_char: "\<not> number_char (CHR '','')" "\<not> number_char (CHR 0x0A)"
  by (simp_all add: number_char_def)

lemma number_chars_digits: "number_chars (digits n)"
  unfolding number_chars_def list_all_iff
  using digits_are_digits [of n] number_char_digit by blast

lemma number_chars_str_int: "number_chars (str_int n)"
  using number_chars_digits [of "nat n"] number_chars_digits [of "nat (- n)"]
  by (simp add: str_int_def number_chars_def number_char_marks)

lemma number_chars_repr_float: "number_chars (repr_float x)"
proof -
  define fp where "fp = nat \<lfloor>x * 100\<rfloor> mod 100"
  have "fp < 100" by (simp add: fp_def)
  then have "fp div 10 < 10" "fp mod 10 < 10" by simp_all
  then have "number_char (digit_char (fp div 10))" "number_char (digit_char (fp mod 10))"
    using digit_char_is_digit number_char_digit by blast+
  moreover have "list_all number_char (digits (nat \<lfloor>x * 100\<rfloor> div 100))"
    using number_chars_digits by (simp only: number_chars_def)
  ultimately show ?thesis
    by (simp add: number_chars_def repr_float_def Let_def fp_def number_char_marks)
qed

lemma number_chars_free: "number_chars s \<Longrightarrow> \<not> number_char c \<Longrightarrow> c \<notin> set s"
  unfolding number_chars_def list_all_iff by blast

lemma repr_float_free:
  "CHR '','' \<notin> set (repr_float x)" "CHR 0x0A \<notin> set (repr_float x)"
  using number_chars_free [OF number_chars_repr_float] not_number_char by blast+

lemma str_int_free:
  "CHR '','' \<notin> set (str_int n)" "CHR 0x0A \<notin> set (str_int n)"
  using number_chars_free [OF number_chars_str_int] not_number_char by blast+

lemma split_on_fields:
  assumes "CHR '','' \<notin> set a" "CHR '','' \<notin> set b" "CHR '','' \<notin> set c" "CHR '','' \<notin> set d"
    "CHR '','' \<notin> set e" "CHR '','' \<notin> set f" "CHR '','' \<notin> set g"
  shows "split_on (CHR '','') (join_comma [a, b, c, d, e, f, g]) = [a, b, c, d, e, f, g]"
  using assms by (simp add: split_on_append split_on_plain)

lemma csv_row_fields:
  assumes "csv_shape r"
  shows "split_on (CHR '','') (csv_row r) =
     [date r, region r, repr_float (temperature r), str_int (humidity r),
      repr_float (wind_speed r), str_int (air_quality_index r), repr_float (precipitation r)]"
  unfolding csv_row_def
proof (rule split_on_fields)
  show "CHR '','' \<notin> set (date r)" "CHR '','' \<notin> set (region r)"
    using assms by (simp_all add: csv_shape_def csv_text_def)
qed (rule repr_float_free str_int_free)+

lemma parse_row_csv_row: "csv_shape r \<Longrightarrow> parse_row (csv_row r) = Some r"
proof -
  assume shape: "csv_shape r"
  then have "parse_float (repr_float (temperature r)) = Some (temperature r)"
    "parse_float (repr_float (wind_speed r)) = Some (wind_speed r)"
    "parse_float (repr_float (precipitation r)) = Some (precipitation r)"
    by (simp_all add: csv_shape_def parse_float_repr_float)
  then show ?thesis
    by (simp add: parse_row_def csv_row_fields [OF shape] parse_int_str_int)
qed

lemma csv_row_one_line: "csv_shape r \<Longrightarrow> CHR 0x0A \<notin> set (csv_row r)"
  by (simp add: csv_row_def csv_shape_def csv_text_def repr_float_free str_int_free)

lemma csv_header_one_line: "CHR 0x0A \<notin> set csv_header"
  by (simp add: csv_header_def)

lemma split_on_lines:
  "\<forall>l \<in> set ls. c \<notin> set l \<Longrightarrow>
   split_on c (concat (map (\<lambda>l. l @ [c]) ls)) = ls @ [[]]"
  by (induction ls) (simp_all add: split_on_append)

lemma csv_lines_to_csv:
  "\<forall>r \<in> set df. csv_shape r \<Longrightarrow> csv_lines (to_csv df) = csv_header # map csv_row df"
proof -
  assume "\<forall>r \<in> set df. csv_shape r"
  then have "\<forall>l \<in> set (csv_header # map csv_row df). CHR 0x0A \<notin> set l"
    using csv_row_one_line csv_header_one_line by auto
  then have "split_on (CHR 0x0A) (to_csv df) = (csv_header # map csv_row df) @ [[]]"
    unfolding to_csv_def by (rule split_on_lines)
  then show ?thesis by (simp add: csv_lines_def)
qed

lemma those_parse_rows:
  "\<forall>r \<in> set df. csv_shape r \<Longrightarrow> those (map parse_row (map csv_row df)) = Some df"
  by (induction df) (simp_all add: parse_row_csv_row)

lemma read_csv_to_csv: "\<forall>r \<in> set df. csv_shape r \<Longrightarrow> read_csv (to_csv df) = Some df"
  by (simp add: read_csv_def csv_lines_to_csv those_parse_rows del: map_map)

lemma number_chars_zfill: "number_chars (zfill w (digits n))"
proof -
  have "list_all number_char (replicate k (CHR ''0''))" for k
    by (simp add: list_all_iff number_char_def)
  with number_chars_digits [of n] show ?thesis
    by (simp add: zfill_def number_chars_def)
qed

lemma number_chars_strftime_ymd: "number_chars (strftime_ymd d)"
  using number_chars_zfill [of 4 "nat (year d)"] number_chars_zfill [of 2 "month d"]
    number_chars_zfill [of 2 "day d"]
  by (simp add: strftime_ymd_def number_chars_def number_char_marks)

lemma csv_text_strftime_ymd: "csv_text (strftime_ymd d)"
  unfolding csv_text_def
  using number_chars_free [OF number_chars_strftime_ymd] not_number_char by blast

lemma csv_text_regions: "reg \<in> set regions \<Longrightarrow> csv_text reg"
  by (auto simp: regions_def csv_text_def)

lemma generated_key_shape:
  assumes "r \<in> set (generate_sample_data now g)"
  shows "csv_text (date r) \<and> csv_text (region r)"
proof -
  from assms have "key r \<in> set (map key (generate_sample_data now g))" by simp
  then obtain i where "date r = strftime_ymd (minus_days (now i) i)" "region r \<in> set regions"
    unfolding generate_sample_data_keys by (auto simp: key_def)
  then show ?thesis by (simp add: csv_text_strftime_ymd csv_text_regions)
qed

lemma two_decimals_round: "0 \<le> py_round_ndigits x n \<Longrightarrow> n \<le> 2 \<Longrightarrow>
   two_decimals (py_round_ndigits x n)"
proof -
  assume nonneg: "0 \<le> py_round_ndigits x n" and "n \<le> 2"
  then have "n = 0 \<or> n = 1 \<or> n = 2" by auto
  then have "py_round_ndigits x n * 100 = of_int (py_round (x * 10 ^ n) * 10 ^ (2 - n))"
    by (auto simp: py_round_ndigits_def)
  then have "of_int \<lfloor>py_round_ndigits x n * 100\<rfloor> = py_round_ndigits x n * 100"
    by (simp only: floor_of_int)
  with nonneg show ?thesis by (simp only: two_decimals_def simp_thms)
qed

lemma make_record_decimals:
  assumes "rng_ok g"
  shows "two_decimals (temperature (fst (make_record d reg g))) \<and>
     two_decimals (wind_speed (fst (make_record d reg g))) \<and>
     two_decimals (precipitation (fst (make_record d reg g)))"
proof -
  from make_record_in_range [OF assms, of d reg]
  have nonneg: "0 \<le> temperature (fst (make_record d reg g))"
    "0 \<le> wind_speed (fst (make_record d reg g))"
    "0 \<le> precipitation (fst (make_record d reg g))"
    by (simp_all add: in_range_def)
  have "\<exists>t w p.
      temperature (fst (make_record d reg g)) = py_round_ndigits t 1 \<and>
      wind_speed (fst (make_record d reg g)) = py_round_ndigits w 1 \<and>
      precipitation (fst (make_record d reg g)) = py_round_ndigits p 2"
    by (auto simp: make_record_def split: prod.splits)
  then obtain t w p where fields:
    "temperature (fst (make_record d reg g)) = py_round_ndigits t 1"
    "wind_speed (fst (make_record d reg g)) = py_round_ndigits w 1"
    "precipitation (fst (make_record d reg g)) = py_round_ndigits p 2"
    by blast
  from nonneg show ?thesis
    unfolding fields by (simp add: two_decimals_round del: One_nat_def)
qed

lemma generated_decimals:
  "rng_ok g \<Longrightarrow>
   list_all (\<lambda>r. two_decimals (temperature r) \<and> two_decimals (wind_speed r) \<and>
      two_decimals (precipitation r)) (generate_sample_data now g)"
  by (rule generate_sample_data_all [of rng_ok])
    (simp_all add: make_record_decimals make_record_in_range)

lemma generated_csv_shape:
  "rng_ok g \<Longrightarrow> r \<in> set (generate_sample_data now g) \<Longrightarrow> csv_shape r"
  using generated_key_shape [of r now g] generated_decimals [of g now]
  by (simp add: csv_shape_def list_all_iff)

lemma csv_shape_sample_day: "\<forall>r \<in> set sample_day. csv_shape r"
  by (simp add: sample_day_def sample_record_def csv_shape_def csv_text_def two_decimals_def)

text \<open>
  Claim C6: for every filtered collection of the generator's records (under the contract
  of the random source), and for every collection of records whose text has no comma or
  line break and whose floats are non-negative with at most two decimals, parsing the
  exported CSV yields the same rows with the same field values, in the same order; the
  export is the header line followed by one line per record, without an index column.
\<close>

theorem read_csv_to_csv_round_trip:
  "(\<forall>r \<in> set df. csv_shape r) \<or>
   (rng_ok g \<and> load_weather_data (Inr (generate_sample_data now g)) d sel = (msgs, df)) \<Longrightarrow>
   read_csv (to_csv df) = Some df \<and>
   csv_lines (to_csv df) = csv_header # map csv_row df"
proof -
  assume "(\<forall>r \<in> set df. csv_shape r) \<or>
    (rng_ok g \<and> load_weather_data (Inr (generate_sample_data now g)) d sel = (msgs, df))"
  then have shape: "\<forall>r \<in> set df. csv_shape r"
  proof
    assume "\<forall>r \<in> set df. csv_shape r"
    then show ?thesis .
  next
    assume gen: "rng_ok g \<and>
      load_weather_data (Inr (generate_sample_data now g)) d sel = (msgs, df)"
    then have "set df \<subseteq> set (generate_sample_data now g)"
      using load_weather_data_subset by blast
    with gen show ?thesis using generated_csv_shape by blast
  qed
  then show ?thesis by (simp only: read_csv_to_csv csv_lines_to_csv simp_thms)
qed

theorem read_csv_to_csv_round_trip_witness:
  "read_csv (to_csv sample_day) = Some sample_day \<and>
   hd (csv_lines (to_csv sample_day)) =
     ''date,region,temperature,humidity,wind_speed,air_quality_index,precipitation'' \<and>
   csv_row (sample_record ''London'' (243 / 10) 30) = ''2026-11-04,London,24.3,30,12.5,80,1.25''"
proof -
  from read_csv_to_csv_round_trip [of sample_day] csv_shape_sample_day
  have "read_csv (to_csv sample_day) = Some sample_day"
    and "csv_lines (to_csv sample_day) = csv_header # map csv_row sample_day"
    by blast+
  moreover have "csv_row (sample_record ''London'' (243 / 10) 30) =
      ''2026-11-04,London,24.3,30,12.5,80,1.25''"
    by code_simp
  ultimately show ?thesis by (simp add: csv_header_def)
qed

end
